theory Spec2Isabelle
  imports Complex_Main "HOL-Library.Multiset" "HOL-Library.Sublist"
begin

section \<open>The two stores of app.py\<close>

text \<open>
  The application keeps two SQLite files: the main database (\<open>MAIN_DB\<close>, schema
  \<open>SCHEMA_SQL\<close>) and the backup database (\<open>BACKUP_DB\<close>, schema \<open>BACKUP_SCHEMA\<close>).
  A table is the list of its rows in rowid order. Integer columns are \<open>int\<close>, nullable
  columns are options, \<open>REAL\<close> columns are \<open>real\<close> (the program only compares them
  with 0 and copies them), and the texts produced by \<open>date('now')\<close> and
  \<open>datetime('now')\<close> are the reading of the wall clock in seconds (a \<open>nat\<close>).
  Field names carry the table's initials, since record fields share one name space.
\<close>

record supplier =
  sup_supplier_id :: int
  sup_name :: string
  sup_contact_name :: "string option"
  sup_phone :: "string option"
  sup_email :: "string option"
  sup_address :: "string option"
  sup_city :: "string option"
  sup_state :: "string option"
  sup_country :: "string option"
  sup_is_active :: int
  sup_created_at :: nat

record product =
  prod_product_id :: int
  prod_name :: string
  prod_sku :: "string option"
  prod_unit_price :: real
  prod_is_active :: int
  prod_created_at :: nat

record purchase_order =
  po_order_id :: int
  po_supplier_id :: int
  po_order_date :: nat
  po_status :: string
  po_notes :: "string option"

record purchase_order_item =
  poi_item_id :: int
  poi_order_id :: int
  poi_product_id :: "int option"
  poi_description :: string
  poi_quantity :: real
  poi_unit_price :: real

record product_audit =
  pa_audit_id :: int
  pa_product_id :: int
  pa_name :: string
  pa_sku :: "string option"
  pa_unit_price :: real
  pa_audit_time :: nat

record order_item_audit =
  oia_audit_id :: int
  oia_item_id :: int
  oia_order_id :: int
  oia_product_id :: "int option"
  oia_description :: string
  oia_quantity :: real
  oia_unit_price :: real
  oia_audit_time :: nat

record product_backup =
  pb_backup_id :: int
  pb_product_id :: int
  pb_name :: string
  pb_sku :: "string option"
  pb_unit_price :: real
  pb_backed_up_at :: nat

record order_item_backup =
  oib_backup_id :: int
  oib_item_id :: int
  oib_order_id :: int
  oib_product_id :: "int option"
  oib_description :: string
  oib_quantity :: real
  oib_unit_price :: real
  oib_backed_up_at :: nat

text \<open>
  The main database. \<open>products_audit_seq\<close> and \<open>order_items_audit_seq\<close> are the
  entries of \<open>sqlite_sequence\<close> that the \<open>AUTOINCREMENT\<close> columns of the two audit
  tables keep: the largest audit_id ever handed out.
\<close>

record main_db =
  suppliers :: "supplier list"
  products :: "product list"
  purchase_orders :: "purchase_order list"
  purchase_order_items :: "purchase_order_item list"
  products_audit :: "product_audit list"
  products_audit_seq :: int
  order_items_audit :: "order_item_audit list"
  order_items_audit_seq :: int
  products_backup_ids :: "int list"
  order_items_backup_ids :: "int list"

record backup_db =
  products_backup :: "product_backup list"
  products_backup_seq :: int
  order_items_backup :: "order_item_backup list"
  order_items_backup_seq :: int

record db =
  main :: main_db
  backup :: backup_db

text \<open>The state after \<open>startup\<close> has run both schema scripts on fresh files.\<close>

definition init_main :: main_db where
  "init_main = \<lparr>suppliers = [], products = [], purchase_orders = [],
     purchase_order_items = [], products_audit = [], products_audit_seq = 0,
     order_items_audit = [], order_items_audit_seq = 0,
     products_backup_ids = [], order_items_backup_ids = []\<rparr>"

definition init_backup :: backup_db where
  "init_backup = \<lparr>products_backup = [], products_backup_seq = 0,
     order_items_backup = [], order_items_backup_seq = 0\<rparr>"

definition init_db :: db where
  "init_db = \<lparr>main = init_main, backup = init_backup\<rparr>"

section \<open>Errors and faults\<close>

text \<open>
  The exceptions of the \<open>sqlite3\<close> module that the code can meet: a violated
  constraint, a failing statement or commit, and the process being stopped.
\<close>

datatype error = IntegrityError | OperationalError | Interrupted

text \<open>
  What the environment does to one replication pass. A statement that fails raises; no
  handler catches it, so the pass ends there and whatever a connection has not committed
  is discarded with the connection. \<open>BackupWriteFails k\<close> and \<open>LedgerWriteFails k\<close>
  name the pending row (counted from 0) whose insert fails; a stop of the process in the
  middle of the loop has the same effect on the stores. \<open>BackupCommitFails\<close> is the
  failure of \<open>bconn.commit()\<close> or a stop between the two commits.
\<close>

datatype fault =
    NoFault
  | ReadFails
  | BackupWriteFails nat
  | LedgerWriteFails nat
  | MainCommitFails
  | BackupCommitFails

section \<open>Row identifiers\<close>

text \<open>
  \<open>INTEGER PRIMARY KEY\<close>: an insert that gives no id gets 1 in an empty table and the
  largest id plus one otherwise. With \<open>AUTOINCREMENT\<close> the largest id ever used, kept in
  \<open>sqlite_sequence\<close>, counts too, so the id of a deleted row is not handed out again.
\<close>

definition next_rowid :: "int list \<Rightarrow> int" where
  "next_rowid ids = (if ids = [] then 1 else Max (set ids) + 1)"

definition next_autoincrement :: "int \<Rightarrow> int list \<Rightarrow> int" where
  "next_autoincrement seq ids = (if ids = [] then seq + 1 else max seq (Max (set ids)) + 1)"

section \<open>Capture: inserts into the tracked tables and their triggers\<close>

text \<open>
  \<open>trg_products_audit\<close>, \<open>AFTER INSERT ON products\<close>: one row of \<open>products_audit\<close>
  from the \<open>NEW\<close> row. The trigger runs inside the insert statement; when its insert
  fails (\<open>fails\<close>), the statement fails and leaves no row behind.
\<close>

definition trg_products_audit :: "bool \<Rightarrow> nat \<Rightarrow> product \<Rightarrow> main_db \<Rightarrow> error + main_db" where
  "trg_products_audit fails now new m =
     (if fails then Inl OperationalError
      else let aid = next_autoincrement (products_audit_seq m) (map pa_audit_id (products_audit m))
           in Inr (m\<lparr>products_audit := products_audit m @
                       [\<lparr>pa_audit_id = aid, pa_product_id = prod_product_id new,
                         pa_name = prod_name new, pa_sku = prod_sku new,
                         pa_unit_price = prod_unit_price new, pa_audit_time = now\<rparr>],
                     products_audit_seq := aid\<rparr>))"

text \<open>
  \<open>INSERT INTO products(name, sku, unit_price) VALUES (?, ?, ?)\<close>, with the table's
  \<open>CHECK(unit_price >= 0)\<close>, the defaults of \<open>is_active\<close> and \<open>created_at\<close>, and the
  trigger.
\<close>

definition insert_products :: "bool \<Rightarrow> nat \<Rightarrow> string \<Rightarrow> string option \<Rightarrow> real \<Rightarrow> main_db \<Rightarrow> error + main_db" where
  "insert_products fails now name sku unit_price m =
     (if unit_price < 0 then Inl IntegrityError
      else let new = \<lparr>prod_product_id = next_rowid (map prod_product_id (products m)),
                       prod_name = name, prod_sku = sku, prod_unit_price = unit_price,
                       prod_is_active = 1, prod_created_at = now div 86400\<rparr>
           in trg_products_audit fails now new (m\<lparr>products := products m @ [new]\<rparr>))"

text \<open>\<open>trg_order_items_audit\<close>, \<open>AFTER INSERT ON purchase_order_items\<close>.\<close>

definition trg_order_items_audit :: "bool \<Rightarrow> nat \<Rightarrow> purchase_order_item \<Rightarrow> main_db \<Rightarrow> error + main_db" where
  "trg_order_items_audit fails now new m =
     (if fails then Inl OperationalError
      else let aid = next_autoincrement (order_items_audit_seq m) (map oia_audit_id (order_items_audit m))
           in Inr (m\<lparr>order_items_audit := order_items_audit m @
                       [\<lparr>oia_audit_id = aid, oia_item_id = poi_item_id new,
                         oia_order_id = poi_order_id new, oia_product_id = poi_product_id new,
                         oia_description = poi_description new, oia_quantity = poi_quantity new,
                         oia_unit_price = poi_unit_price new, oia_audit_time = now\<rparr>],
                     order_items_audit_seq := aid\<rparr>))"

text \<open>
  \<open>INSERT INTO purchase_order_items(order_id, description, quantity, unit_price)\<close>:
  the order must exist (\<open>PRAGMA foreign_keys = ON\<close>), \<open>quantity > 0\<close>,
  \<open>unit_price >= 0\<close>; \<open>product_id\<close> is not given and stays \<open>NULL\<close>.
\<close>

definition insert_purchase_order_items :: "bool \<Rightarrow> nat \<Rightarrow> int \<Rightarrow> string \<Rightarrow> real \<Rightarrow> real \<Rightarrow> main_db \<Rightarrow> error + main_db" where
  "insert_purchase_order_items fails now order_id description quantity unit_price m =
     (if order_id \<notin> set (map po_order_id (purchase_orders m)) then Inl IntegrityError
      else if \<not> quantity > 0 then Inl IntegrityError
      else if unit_price < 0 then Inl IntegrityError
      else let new = \<lparr>poi_item_id = next_rowid (map poi_item_id (purchase_order_items m)),
                       poi_order_id = order_id, poi_product_id = None,
                       poi_description = description, poi_quantity = quantity,
                       poi_unit_price = unit_price\<rparr>
           in trg_order_items_audit fails now new (m\<lparr>purchase_order_items := purchase_order_items m @ [new]\<rparr>))"

section \<open>Replication\<close>

text \<open>
  \<open>INSERT INTO products_backup(product_id, name, sku, unit_price) VALUES (?,?,?,?)\<close>:
  \<open>backup_id\<close> is \<open>AUTOINCREMENT\<close>, \<open>backed_up_at\<close> is the clock at the insert.
\<close>

definition insert_products_backup :: "nat \<Rightarrow> int \<Rightarrow> string \<Rightarrow> string option \<Rightarrow> real \<Rightarrow> backup_db \<Rightarrow> backup_db" where
  "insert_products_backup now product_id name sku unit_price b =
     (let bid = next_autoincrement (products_backup_seq b) (map pb_backup_id (products_backup b))
      in b\<lparr>products_backup := products_backup b @
              [\<lparr>pb_backup_id = bid, pb_product_id = product_id, pb_name = name, pb_sku = sku,
                pb_unit_price = unit_price, pb_backed_up_at = now\<rparr>],
            products_backup_seq := bid\<rparr>)"

text \<open>
  \<open>INSERT INTO products_backup_ids(audit_id) VALUES (?)\<close>: \<open>audit_id\<close> is the primary
  key, so an id that is already there is refused.
\<close>

definition insert_products_backup_ids :: "int \<Rightarrow> main_db \<Rightarrow> error + main_db" where
  "insert_products_backup_ids audit_id m =
     (if audit_id \<in> set (products_backup_ids m) then Inl IntegrityError
      else Inr (m\<lparr>products_backup_ids := products_backup_ids m @ [audit_id]\<rparr>))"

text \<open>
  The loop of \<open>replicate_product_to_backup\<close> over the fetched rows. \<open>m\<close> and \<open>b\<close> are
  what the two connections see, their uncommitted writes included; \<open>i\<close> counts the rows
  done; \<open>now i\<close> is the clock when row \<open>i\<close> is written.
\<close>

fun replicate_product_rows :: "fault \<Rightarrow> (nat \<Rightarrow> nat) \<Rightarrow> nat \<Rightarrow> product_audit list \<Rightarrow> main_db \<Rightarrow> backup_db \<Rightarrow> error + (main_db \<times> backup_db)" where
  "replicate_product_rows f now i [] m b = Inr (m, b)"
| "replicate_product_rows f now i (r # rows) m b =
     (if f = BackupWriteFails i then Inl OperationalError
      else let b' = insert_products_backup (now i) (pa_product_id r) (pa_name r) (pa_sku r) (pa_unit_price r) b
           in if f = LedgerWriteFails i then Inl OperationalError
              else case insert_products_backup_ids (pa_audit_id r) m of
                     Inl e \<Rightarrow> Inl e
                   | Inr m' \<Rightarrow> replicate_product_rows f now (Suc i) rows m' b')"

text \<open>
  \<open>replicate_product_to_backup\<close>: select the audit rows whose id is not in
  \<open>products_backup_ids\<close>, run the loop, then \<open>conn.commit()\<close> and \<open>bconn.commit()\<close> in
  that order. The result is the exception raised, if any, and the two stores as they are
  on disk afterwards.
\<close>

definition replicate_product_to_backup :: "fault \<Rightarrow> (nat \<Rightarrow> nat) \<Rightarrow> db \<Rightarrow> error option \<times> db" where
  "replicate_product_to_backup f now s =
     (if f = ReadFails then (Some OperationalError, s)
      else let rows = filter (\<lambda>r. pa_audit_id r \<notin> set (products_backup_ids (main s)))
                             (products_audit (main s))
           in case replicate_product_rows f now 0 rows (main s) (backup s) of
                Inl e \<Rightarrow> (Some e, s)
              | Inr (m', b') \<Rightarrow>
                  if f = MainCommitFails then (Some OperationalError, s)
                  else if f = BackupCommitFails then (Some Interrupted, s\<lparr>main := m'\<rparr>)
                  else (None, \<lparr>main = m', backup = b'\<rparr>))"

text \<open>The same for order items.\<close>

definition insert_order_items_backup :: "nat \<Rightarrow> int \<Rightarrow> int \<Rightarrow> int option \<Rightarrow> string \<Rightarrow> real \<Rightarrow> real \<Rightarrow> backup_db \<Rightarrow> backup_db" where
  "insert_order_items_backup now item_id order_id product_id description quantity unit_price b =
     (let bid = next_autoincrement (order_items_backup_seq b) (map oib_backup_id (order_items_backup b))
      in b\<lparr>order_items_backup := order_items_backup b @
              [\<lparr>oib_backup_id = bid, oib_item_id = item_id, oib_order_id = order_id,
                oib_product_id = product_id, oib_description = description,
                oib_quantity = quantity, oib_unit_price = unit_price, oib_backed_up_at = now\<rparr>],
            order_items_backup_seq := bid\<rparr>)"

definition insert_order_items_backup_ids :: "int \<Rightarrow> main_db \<Rightarrow> error + main_db" where
  "insert_order_items_backup_ids audit_id m =
     (if audit_id \<in> set (order_items_backup_ids m) then Inl IntegrityError
      else Inr (m\<lparr>order_items_backup_ids := order_items_backup_ids m @ [audit_id]\<rparr>))"

fun replicate_order_item_rows :: "fault \<Rightarrow> (nat \<Rightarrow> nat) \<Rightarrow> nat \<Rightarrow> order_item_audit list \<Rightarrow> main_db \<Rightarrow> backup_db \<Rightarrow> error + (main_db \<times> backup_db)" where
  "replicate_order_item_rows f now i [] m b = Inr (m, b)"
| "replicate_order_item_rows f now i (r # rows) m b =
     (if f = BackupWriteFails i then Inl OperationalError
      else let b' = insert_order_items_backup (now i) (oia_item_id r) (oia_order_id r) (oia_product_id r)
                      (oia_description r) (oia_quantity r) (oia_unit_price r) b
           in if f = LedgerWriteFails i then Inl OperationalError
              else case insert_order_items_backup_ids (oia_audit_id r) m of
                     Inl e \<Rightarrow> Inl e
                   | Inr m' \<Rightarrow> replicate_order_item_rows f now (Suc i) rows m' b')"

definition replicate_order_item_to_backup :: "fault \<Rightarrow> (nat \<Rightarrow> nat) \<Rightarrow> db \<Rightarrow> error option \<times> db" where
  "replicate_order_item_to_backup f now s =
     (if f = ReadFails then (Some OperationalError, s)
      else let rows = filter (\<lambda>r. oia_audit_id r \<notin> set (order_items_backup_ids (main s)))
                             (order_items_audit (main s))
           in case replicate_order_item_rows f now 0 rows (main s) (backup s) of
                Inl e \<Rightarrow> (Some e, s)
              | Inr (m', b') \<Rightarrow>
                  if f = MainCommitFails then (Some OperationalError, s)
                  else if f = BackupCommitFails then (Some Interrupted, s\<lparr>main := m'\<rparr>)
                  else (None, \<lparr>main = m', backup = b'\<rparr>))"

section \<open>The other tables\<close>

text \<open>
  \<open>INSERT INTO suppliers(name, contact_name, phone, email, address, city, state, country)\<close>;
  \<open>email\<close> is \<open>UNIQUE\<close> (a \<open>NULL\<close> email never clashes).
\<close>

definition insert_suppliers :: "nat \<Rightarrow> string \<Rightarrow> string option \<Rightarrow> string option \<Rightarrow> string option \<Rightarrow> string option \<Rightarrow> string option \<Rightarrow> string option \<Rightarrow> string option \<Rightarrow> main_db \<Rightarrow> error + main_db" where
  "insert_suppliers now name contact_name phone email address city state country m =
     (if email \<noteq> None \<and> email \<in> set (map sup_email (suppliers m)) then Inl IntegrityError
      else Inr (m\<lparr>suppliers := suppliers m @
                  [\<lparr>sup_supplier_id = next_rowid (map sup_supplier_id (suppliers m)),
                    sup_name = name, sup_contact_name = contact_name, sup_phone = phone,
                    sup_email = email, sup_address = address, sup_city = city,
                    sup_state = state, sup_country = country, sup_is_active = 1,
                    sup_created_at = now div 86400\<rparr>]\<rparr>))"

text \<open>
  \<open>INSERT INTO purchase_orders(supplier_id, status, notes)\<close>: the supplier must exist
  and the status must be one of the four of the \<open>CHECK\<close>.
\<close>

definition insert_purchase_orders :: "nat \<Rightarrow> int \<Rightarrow> string \<Rightarrow> string option \<Rightarrow> main_db \<Rightarrow> error + main_db" where
  "insert_purchase_orders now supplier_id status notes m =
     (if supplier_id \<notin> set (map sup_supplier_id (suppliers m)) then Inl IntegrityError
      else if status \<notin> set [''DRAFT'', ''PLACED'', ''RECEIVED'', ''CANCELLED''] then Inl IntegrityError
      else Inr (m\<lparr>purchase_orders := purchase_orders m @
                  [\<lparr>po_order_id = next_rowid (map po_order_id (purchase_orders m)),
                    po_supplier_id = supplier_id, po_order_date = now div 86400,
                    po_status = status, po_notes = notes\<rparr>]\<rparr>))"

text \<open>\<open>cursor.executemany\<close>: the statement once per parameter tuple, stopping at the first failure.\<close>

fun executemany :: "(nat \<Rightarrow> 'a \<Rightarrow> main_db \<Rightarrow> error + main_db) \<Rightarrow> nat \<Rightarrow> 'a list \<Rightarrow> main_db \<Rightarrow> error + main_db" where
  "executemany stmt i [] m = Inr m"
| "executemany stmt i (p # ps) m =
     (case stmt i p m of Inl e \<Rightarrow> Inl e | Inr m' \<Rightarrow> executemany stmt (Suc i) ps m')"

section \<open>The request handlers\<close>

text \<open>
  What a request meets: the wall clock (its reading when the call writes its \<open>n\<close>-th
  row), whether the audit insert of a trigger fails, and the fault of each replication
  pass the request runs.
\<close>

record env =
  clock :: "nat \<Rightarrow> nat"
  capture_fault :: bool
  product_fault :: fault
  order_item_fault :: fault

definition suppliers_demo :: "(string \<times> string \<times> string \<times> string \<times> string \<times> string \<times> string \<times> string) list" where
  "suppliers_demo =
     [(''Alpha Tech Suppliers'', ''Kiran Kumar'', ''9876543210'', ''alpha.tech.suppliers@gmail.com'',
       ''23 Electronics Street, Industrial Layout'', ''Bengaluru'', ''KA'', ''India''),
      (''Southern Electronics'', ''Priya R'', ''9753186420'', ''contact@southern-electro.in'',
       ''48 Anna Salai, Opp Metro Pillar 12'', ''Chennai'', ''TN'', ''India''),
      (''Kerala Industrial Co.'', ''Anand Pillai'', ''8899001122'', ''info@kico.co.in'',
       ''12/88 MG Road, Marine Drive'', ''Kochi'', ''KL'', ''India'')]"

definition products_demo :: "(string \<times> string \<times> real) list" where
  "products_demo =
     [(''3-Pin Power Cable'', ''PC-3PIN-IND'', 160),
      (''Industrial Soldering Iron 40W'', ''SLD-IRON-40W'', 680),
      (''Raspberry Pi 4B (4GB RAM)'', ''RPI4-4GB'', 5200),
      (''12V SMPS Adapter'', ''SMPS-12V-2A'', 450),
      (''CCTV Camera 2MP HD'', ''CCTV-2MP-HD'', 1790)]"

definition order_items_demo :: "int \<Rightarrow> (int \<times> string \<times> real \<times> real) list" where
  "order_items_demo order_id =
     [(order_id, ''Raspberry Pi 4B (4GB RAM)'', 3, 5200),
      (order_id, ''CCTV Camera 2MP HD'', 5, 1790),
      (order_id, ''3-Pin Power Cable'', 10, 160)]"

text \<open>The eight \<open>DELETE\<close> statements at the head of \<open>seed_demo\<close>.\<close>

definition seed_wipe :: "main_db \<Rightarrow> main_db" where
  "seed_wipe m = m\<lparr>purchase_order_items := [], purchase_orders := [], products := [],
     suppliers := [], products_audit := [], order_items_audit := [],
     products_backup_ids := [], order_items_backup_ids := []\<rparr>"

text \<open>The inserts of \<open>seed_demo\<close>, in one transaction.\<close>

definition seed_inserts :: "env \<Rightarrow> main_db \<Rightarrow> error + main_db" where
  "seed_inserts e m0 =
     (case executemany (\<lambda>i (n, c, p, em, a, ci, st, co).
             insert_suppliers (clock e i) n (Some c) (Some p) (Some em) (Some a) (Some ci) (Some st) (Some co))
             0 suppliers_demo m0 of
        Inl err \<Rightarrow> Inl err
      | Inr m1 \<Rightarrow>
     (case executemany (\<lambda>i (n, sku, price).
             insert_products (capture_fault e) (clock e i) n (Some sku) price)
             0 products_demo m1 of
        Inl err \<Rightarrow> Inl err
      | Inr m2 \<Rightarrow>
     (case insert_purchase_orders (clock e 0) 1 ''PLACED'' (Some ''Urgent requirement for IoT Lab.'') m2 of
        Inl err \<Rightarrow> Inl err
      | Inr m3 \<Rightarrow>
          let order_id = po_order_id (last (purchase_orders m3))
          in executemany (\<lambda>i (oid, d, q, p).
               insert_purchase_order_items (capture_fault e) (clock e i) oid d q p)
               0 (order_items_demo order_id) m3)))"

text \<open>
  \<open>seed_demo\<close>: wipe and commit; insert and commit; then both replication passes. An
  exception ends the call where it is raised.
\<close>

definition seed_demo :: "env \<Rightarrow> db \<Rightarrow> error option \<times> db" where
  "seed_demo e s =
     (let s0 = s\<lparr>main := seed_wipe (main s)\<rparr>
      in case seed_inserts e (main s0) of
           Inl err \<Rightarrow> (Some err, s0)
         | Inr m1 \<Rightarrow>
             (case replicate_product_to_backup (product_fault e) (clock e) (s0\<lparr>main := m1\<rparr>) of
                (Some err, s2) \<Rightarrow> (Some err, s2)
              | (None, s2) \<Rightarrow> replicate_order_item_to_backup (order_item_fault e) (clock e) s2))"

text \<open>\<open>dashboard\<close>: both passes, then three counts.\<close>

definition dashboard :: "env \<Rightarrow> db \<Rightarrow> error option \<times> db" where
  "dashboard e s =
     (case replicate_product_to_backup (product_fault e) (clock e) s of
        (Some err, s1) \<Rightarrow> (Some err, s1)
      | (None, s1) \<Rightarrow> replicate_order_item_to_backup (order_item_fault e) (clock e) s1)"

definition add_supplier :: "env \<Rightarrow> string \<Rightarrow> string option \<Rightarrow> string option \<Rightarrow> string option \<Rightarrow> string option \<Rightarrow> string option \<Rightarrow> string option \<Rightarrow> string \<Rightarrow> db \<Rightarrow> error option \<times> db" where
  "add_supplier e name contact phone email address city state country s =
     (case insert_suppliers (clock e 0) name contact phone email address city state (Some country) (main s) of
        Inl err \<Rightarrow> (Some err, s)
      | Inr m' \<Rightarrow> (None, s\<lparr>main := m'\<rparr>))"

text \<open>\<open>UPDATE suppliers SET is_active = 0 WHERE supplier_id=?\<close>.\<close>

definition supplier_deactivate :: "int \<Rightarrow> db \<Rightarrow> error option \<times> db" where
  "supplier_deactivate supplier_id s =
     (None, s\<lparr>main := (main s)\<lparr>suppliers :=
        map (\<lambda>r. if sup_supplier_id r = supplier_id then r\<lparr>sup_is_active := 0\<rparr> else r)
            (suppliers (main s))\<rparr>\<rparr>)"

text \<open>\<open>add_product\<close> (POST): insert, commit, then the product pass.\<close>

definition add_product :: "env \<Rightarrow> string \<Rightarrow> string \<Rightarrow> real \<Rightarrow> db \<Rightarrow> error option \<times> db" where
  "add_product e name sku price s =
     (case insert_products (capture_fault e) (clock e 0) name (Some sku) price (main s) of
        Inl err \<Rightarrow> (Some err, s)
      | Inr m' \<Rightarrow> replicate_product_to_backup (product_fault e) (clock e) (s\<lparr>main := m'\<rparr>))"

definition add_order :: "env \<Rightarrow> int \<Rightarrow> string option \<Rightarrow> db \<Rightarrow> error option \<times> db" where
  "add_order e supplier notes s =
     (case insert_purchase_orders (clock e 0) supplier ''DRAFT'' notes (main s) of
        Inl err \<Rightarrow> (Some err, s)
      | Inr m' \<Rightarrow> (None, s\<lparr>main := m'\<rparr>))"

text \<open>\<open>add_item\<close> (POST): insert, commit, then the order-item pass.\<close>

definition add_item :: "env \<Rightarrow> int \<Rightarrow> string \<Rightarrow> real \<Rightarrow> real \<Rightarrow> db \<Rightarrow> error option \<times> db" where
  "add_item e oid desc qty price s =
     (case insert_purchase_order_items (capture_fault e) (clock e 0) oid desc qty price (main s) of
        Inl err \<Rightarrow> (Some err, s)
      | Inr m' \<Rightarrow> replicate_order_item_to_backup (order_item_fault e) (clock e) (s\<lparr>main := m'\<rparr>))"


text \<open>
  The routes that write. \<open>ReadOnly\<close> stands for the routes that only select
  (\<open>/suppliers\<close>, \<open>/products\<close>, \<open>/orders\<close>, \<open>/order/<oid>\<close>, \<open>/backup\<close> and the
  forms fetched with GET).
\<close>

datatype request =
    SeedDemo
  | Dashboard
  | AddSupplier string "string option" "string option" "string option" "string option" "string option" "string option" string
  | SupplierDeactivate int
  | AddProduct string string real
  | AddOrder int "string option"
  | AddItem int string real real
  | ReadOnly

fun handle :: "env \<Rightarrow> request \<Rightarrow> db \<Rightarrow> error option \<times> db" where
  "handle e SeedDemo s = seed_demo e s"
| "handle e Dashboard s = dashboard e s"
| "handle e (AddSupplier name contact phone email address city state country) s =
     add_supplier e name contact phone email address city state country s"
| "handle e (SupplierDeactivate supplier_id) s = supplier_deactivate supplier_id s"
| "handle e (AddProduct name sku price) s = add_product e name sku price s"
| "handle e (AddOrder supplier notes) s = add_order e supplier notes s"
| "handle e (AddItem oid desc qty price) s = add_item e oid desc qty price s"
| "handle e ReadOnly s = (None, s)"

text \<open>A history of the system: the requests served one after the other, each in its environment.\<close>

fun run :: "(env \<times> request) list \<Rightarrow> db \<Rightarrow> db" where
  "run [] s = s"
| "run ((e, r) # evs) s = run evs (snd (handle e r s))"

section \<open>Pending and replicated audit rows, and the consistency of the two stores\<close>

text \<open>The snapshot fields: what the trigger copies from the row and the pass copies on.\<close>

definition prod_snapshot :: "product \<Rightarrow> int \<times> string \<times> string option \<times> real" where
  "prod_snapshot p = (prod_product_id p, prod_name p, prod_sku p, prod_unit_price p)"

definition pa_snapshot :: "product_audit \<Rightarrow> int \<times> string \<times> string option \<times> real" where
  "pa_snapshot a = (pa_product_id a, pa_name a, pa_sku a, pa_unit_price a)"

definition pb_snapshot :: "product_backup \<Rightarrow> int \<times> string \<times> string option \<times> real" where
  "pb_snapshot b = (pb_product_id b, pb_name b, pb_sku b, pb_unit_price b)"

definition poi_snapshot :: "purchase_order_item \<Rightarrow> int \<times> int \<times> int option \<times> string \<times> real \<times> real" where
  "poi_snapshot p = (poi_item_id p, poi_order_id p, poi_product_id p, poi_description p,
     poi_quantity p, poi_unit_price p)"

definition oia_snapshot :: "order_item_audit \<Rightarrow> int \<times> int \<times> int option \<times> string \<times> real \<times> real" where
  "oia_snapshot a = (oia_item_id a, oia_order_id a, oia_product_id a, oia_description a,
     oia_quantity a, oia_unit_price a)"

definition oib_snapshot :: "order_item_backup \<Rightarrow> int \<times> int \<times> int option \<times> string \<times> real \<times> real" where
  "oib_snapshot b = (oib_item_id b, oib_order_id b, oib_product_id b, oib_description b,
     oib_quantity b, oib_unit_price b)"

text \<open>
  The pending set that a pass selects, and its complement: the audit rows whose id is in
  the ledger.
\<close>

definition products_pending :: "main_db \<Rightarrow> product_audit list" where
  "products_pending m =
     filter (\<lambda>r. pa_audit_id r \<notin> set (products_backup_ids m)) (products_audit m)"

definition products_ledgered :: "main_db \<Rightarrow> product_audit list" where
  "products_ledgered m =
     filter (\<lambda>r. pa_audit_id r \<in> set (products_backup_ids m)) (products_audit m)"

definition order_items_pending :: "main_db \<Rightarrow> order_item_audit list" where
  "order_items_pending m =
     filter (\<lambda>r. oia_audit_id r \<notin> set (order_items_backup_ids m)) (order_items_audit m)"

definition order_items_ledgered :: "main_db \<Rightarrow> order_item_audit list" where
  "order_items_ledgered m =
     filter (\<lambda>r. oia_audit_id r \<in> set (order_items_backup_ids m)) (order_items_audit m)"

text \<open>
  What the schema and the triggers keep true of the main database: audit ids are
  distinct and not above the \<open>AUTOINCREMENT\<close> counter, a ledger holds distinct ids of
  audit rows, the ids of the tracked tables are distinct, and each audit table holds the
  snapshots of its tracked table, row for row.
\<close>

definition wf_products :: "main_db \<Rightarrow> bool" where
  "wf_products m \<longleftrightarrow>
     distinct (map pa_audit_id (products_audit m)) \<and>
     list_all (\<lambda>a. pa_audit_id a \<le> products_audit_seq m) (products_audit m) \<and>
     distinct (products_backup_ids m) \<and>
     set (products_backup_ids m) \<subseteq> set (map pa_audit_id (products_audit m)) \<and>
     distinct (map prod_product_id (products m)) \<and>
     map pa_snapshot (products_audit m) = map prod_snapshot (products m)"

definition wf_order_items :: "main_db \<Rightarrow> bool" where
  "wf_order_items m \<longleftrightarrow>
     distinct (map oia_audit_id (order_items_audit m)) \<and>
     list_all (\<lambda>a. oia_audit_id a \<le> order_items_audit_seq m) (order_items_audit m) \<and>
     distinct (order_items_backup_ids m) \<and>
     set (order_items_backup_ids m) \<subseteq> set (map oia_audit_id (order_items_audit m)) \<and>
     distinct (map poi_item_id (purchase_order_items m)) \<and>
     map oia_snapshot (order_items_audit m) = map poi_snapshot (purchase_order_items m)"

definition wf_main :: "main_db \<Rightarrow> bool" where
  "wf_main m \<longleftrightarrow> wf_products m \<and> wf_order_items m"

text \<open>
  The backup tables carry no audit id, so a backup record corresponds to a ledger entry
  through the snapshot fields. \<open>covered\<close>: every ledgered audit row has a backup record
  of its own. \<open>no_dup\<close>: every backup record belongs to a ledgered audit row of its own.
  \<open>matched\<close>: both, a one-to-one correspondence.
\<close>

definition products_covered :: "db \<Rightarrow> bool" where
  "products_covered s \<longleftrightarrow>
     mset (map pa_snapshot (products_ledgered (main s))) \<subseteq>#
     mset (map pb_snapshot (products_backup (backup s)))"

definition products_no_dup :: "db \<Rightarrow> bool" where
  "products_no_dup s \<longleftrightarrow>
     mset (map pb_snapshot (products_backup (backup s))) \<subseteq>#
     mset (map pa_snapshot (products_ledgered (main s)))"

definition products_matched :: "db \<Rightarrow> bool" where
  "products_matched s \<longleftrightarrow>
     mset (map pb_snapshot (products_backup (backup s))) =
     mset (map pa_snapshot (products_ledgered (main s)))"

definition order_items_covered :: "db \<Rightarrow> bool" where
  "order_items_covered s \<longleftrightarrow>
     mset (map oia_snapshot (order_items_ledgered (main s))) \<subseteq>#
     mset (map oib_snapshot (order_items_backup (backup s)))"

definition order_items_no_dup :: "db \<Rightarrow> bool" where
  "order_items_no_dup s \<longleftrightarrow>
     mset (map oib_snapshot (order_items_backup (backup s))) \<subseteq>#
     mset (map oia_snapshot (order_items_ledgered (main s)))"

definition order_items_matched :: "db \<Rightarrow> bool" where
  "order_items_matched s \<longleftrightarrow>
     mset (map oib_snapshot (order_items_backup (backup s))) =
     mset (map oia_snapshot (order_items_ledgered (main s)))"

text \<open>A pass that is not stopped between its two commits.\<close>

definition commits_together :: "fault \<Rightarrow> bool" where
  "commits_together f \<longleftrightarrow> f \<noteq> BackupCommitFails"

text \<open>
  The three properties for both kinds at once, each together with the well-formedness of
  the main database, and the environments in which no pass is stopped between its commits.
\<close>

definition stores_covered :: "db \<Rightarrow> bool" where
  "stores_covered s \<longleftrightarrow> wf_main (main s) \<and> products_covered s \<and> order_items_covered s"

definition stores_no_dup :: "db \<Rightarrow> bool" where
  "stores_no_dup s \<longleftrightarrow> wf_main (main s) \<and> products_no_dup s \<and> order_items_no_dup s"

definition stores_consistent :: "db \<Rightarrow> bool" where
  "stores_consistent s \<longleftrightarrow> wf_main (main s) \<and> products_matched s \<and> order_items_matched s"

definition env_commits_together :: "env \<Rightarrow> bool" where
  "env_commits_together e \<longleftrightarrow>
     commits_together (product_fault e) \<and> commits_together (order_item_fault e)"

text \<open>
  Tables that only grow between two states: every row of the first state is still
  there, unchanged and in its place, and rows may have been appended. And the requests
  whose handlers call a replication routine.
\<close>

definition ledgers_grow :: "db \<Rightarrow> db \<Rightarrow> bool" where
  "ledgers_grow s s' \<longleftrightarrow>
     prefix (products_backup_ids (main s)) (products_backup_ids (main s')) \<and>
     prefix (order_items_backup_ids (main s)) (order_items_backup_ids (main s'))"

definition backup_grows :: "db \<Rightarrow> db \<Rightarrow> bool" where
  "backup_grows s s' \<longleftrightarrow>
     prefix (products_backup (backup s)) (products_backup (backup s')) \<and>
     prefix (order_items_backup (backup s)) (order_items_backup (backup s'))"

fun runs_replication :: "request \<Rightarrow> bool" where
  "runs_replication SeedDemo = True"
| "runs_replication Dashboard = True"
| "runs_replication (AddProduct name sku price) = True"
| "runs_replication (AddItem oid desc qty price) = True"
| "runs_replication _ = False"

text \<open>
  What one pass with fault \<open>f\<close> may have done to a ledger table and its backup
  table, seen from outside. \<open>ledger0\<close> and \<open>backup0\<close> are the two tables when the
  pass read the pending set; the pending rows are then the audit rows whose id is not in
  \<open>ledger0\<close>. Either both tables are as they were, or the ledger has got the ids of
  exactly the pending rows and the backup table has got one record for each of them,
  with the fields of the row (no record at all when \<open>f\<close> is the stop between the two
  commits).
\<close>

definition products_written_by_pass :: "fault \<Rightarrow> int list \<Rightarrow> product_backup list \<Rightarrow> db \<Rightarrow> bool" where
  "products_written_by_pass f ledger0 backup0 s' \<longleftrightarrow>
     (products_backup_ids (main s') = ledger0 \<and> products_backup (backup s') = backup0) \<or>
     (products_backup_ids (main s') =
        ledger0 @ map pa_audit_id
          (filter (\<lambda>r. pa_audit_id r \<notin> set ledger0) (products_audit (main s'))) \<and>
      (if f = BackupCommitFails then products_backup (backup s') = backup0
       else take (length backup0) (products_backup (backup s')) = backup0 \<and>
            map pb_snapshot (drop (length backup0) (products_backup (backup s'))) =
              map pa_snapshot
                (filter (\<lambda>r. pa_audit_id r \<notin> set ledger0) (products_audit (main s')))))"

definition order_items_written_by_pass :: "fault \<Rightarrow> int list \<Rightarrow> order_item_backup list \<Rightarrow> db \<Rightarrow> bool" where
  "order_items_written_by_pass f ledger0 backup0 s' \<longleftrightarrow>
     (order_items_backup_ids (main s') = ledger0 \<and> order_items_backup (backup s') = backup0) \<or>
     (order_items_backup_ids (main s') =
        ledger0 @ map oia_audit_id
          (filter (\<lambda>r. oia_audit_id r \<notin> set ledger0) (order_items_audit (main s'))) \<and>
      (if f = BackupCommitFails then order_items_backup (backup s') = backup0
       else take (length backup0) (order_items_backup (backup s')) = backup0 \<and>
            map oib_snapshot (drop (length backup0) (order_items_backup (backup s'))) =
              map oia_snapshot
                (filter (\<lambda>r. oia_audit_id r \<notin> set ledger0) (order_items_audit (main s')))))"

text \<open>
  Several invocations of a pass at the same time. Each invocation has its own two
  connections. SQLite lets one connection at a time hold the write lock of a database
  file, from the first write of a transaction to its commit or roll-back, and the first
  statement of the loop writes the backup database: so the loops and commits of two
  invocations never overlap, the later one waits for the lock (or gives up with
  \<open>database is locked\<close>, an \<open>OperationalError\<close> at its first backup insert). What does
  overlap is the \<open>SELECT\<close>: it takes no lock that outlasts it, so an invocation may have
  fetched its rows from the main database as it was committed at any moment between the
  start of the invocations and the invocation's own first write.

  \<open>replicate_product_to_backup_reading f now view s\<close> is the pass whose \<open>SELECT\<close> was
  evaluated on \<open>view\<close> and whose loop and commits run on the stores \<open>s\<close>.
\<close>

definition replicate_product_to_backup_reading :: "fault \<Rightarrow> (nat \<Rightarrow> nat) \<Rightarrow> main_db \<Rightarrow> db \<Rightarrow> error option \<times> db" where
  "replicate_product_to_backup_reading f now view s =
     (if f = ReadFails then (Some OperationalError, s)
      else let rows = filter (\<lambda>r. pa_audit_id r \<notin> set (products_backup_ids view))
                             (products_audit view)
           in case replicate_product_rows f now 0 rows (main s) (backup s) of
                Inl e \<Rightarrow> (Some e, s)
              | Inr (m', b') \<Rightarrow>
                  if f = MainCommitFails then (Some OperationalError, s)
                  else if f = BackupCommitFails then (Some Interrupted, s\<lparr>main := m'\<rparr>)
                  else (None, \<lparr>main = m', backup = b'\<rparr>))"

definition replicate_order_item_to_backup_reading :: "fault \<Rightarrow> (nat \<Rightarrow> nat) \<Rightarrow> main_db \<Rightarrow> db \<Rightarrow> error option \<times> db" where
  "replicate_order_item_to_backup_reading f now view s =
     (if f = ReadFails then (Some OperationalError, s)
      else let rows = filter (\<lambda>r. oia_audit_id r \<notin> set (order_items_backup_ids view))
                             (order_items_audit view)
           in case replicate_order_item_rows f now 0 rows (main s) (backup s) of
                Inl e \<Rightarrow> (Some e, s)
              | Inr (m', b') \<Rightarrow>
                  if f = MainCommitFails then (Some OperationalError, s)
                  else if f = BackupCommitFails then (Some Interrupted, s\<lparr>main := m'\<rparr>)
                  else (None, \<lparr>main = m', backup = b'\<rparr>))"

text \<open>
  The invocations in the order in which they get the write lock. An invocation is its
  fault, its clock and the age \<open>k\<close> of its read: \<open>seen\<close> holds the earlier committed states
  of the main database since the invocations started, the latest first, and the
  invocation has read the current state if \<open>k = 0\<close>, else the \<open>k\<close>-th state back (the
  oldest, the state at the start, if \<open>k\<close> is larger than that). The result is what each
  invocation raised, in that order, and the stores at the end.
\<close>

fun replicate_product_invocations :: "(fault \<times> (nat \<Rightarrow> nat) \<times> nat) list \<Rightarrow> main_db list \<Rightarrow> db \<Rightarrow> error option list \<times> db" where
  "replicate_product_invocations [] seen s = ([], s)"
| "replicate_product_invocations ((f, now, k) # invs) seen s =
     (let view = (main s # seen) ! min k (length seen);
          (res, s') = replicate_product_to_backup_reading f now view s;
          (ress, s'') = replicate_product_invocations invs (main s # seen) s'
      in (res # ress, s''))"

fun replicate_order_item_invocations :: "(fault \<times> (nat \<Rightarrow> nat) \<times> nat) list \<Rightarrow> main_db list \<Rightarrow> db \<Rightarrow> error option list \<times> db" where
  "replicate_order_item_invocations [] seen s = ([], s)"
| "replicate_order_item_invocations ((f, now, k) # invs) seen s =
     (let view = (main s # seen) ! min k (length seen);
          (res, s') = replicate_order_item_to_backup_reading f now view s;
          (ress, s'') = replicate_order_item_invocations invs (main s # seen) s'
      in (res # ress, s''))"

text \<open>
  The stores \<open>s'\<close> hold exactly what one complete pass over the rows pending in \<open>s\<close>
  adds: the ledger has got the ids of the pending rows, the backup table one record for
  each pending row, in order and with the fields of the row, and nothing is pending.
\<close>

definition products_replicated_exactly :: "db \<Rightarrow> db \<Rightarrow> bool" where
  "products_replicated_exactly s s' \<longleftrightarrow>
     products_backup_ids (main s') =
       products_backup_ids (main s) @ map pa_audit_id (products_pending (main s)) \<and>
     take (length (products_backup (backup s))) (products_backup (backup s')) =
       products_backup (backup s) \<and>
     map pb_snapshot (drop (length (products_backup (backup s))) (products_backup (backup s'))) =
       map pa_snapshot (products_pending (main s)) \<and>
     products_pending (main s') = []"

definition order_items_replicated_exactly :: "db \<Rightarrow> db \<Rightarrow> bool" where
  "order_items_replicated_exactly s s' \<longleftrightarrow>
     order_items_backup_ids (main s') =
       order_items_backup_ids (main s) @ map oia_audit_id (order_items_pending (main s)) \<and>
     take (length (order_items_backup (backup s))) (order_items_backup (backup s')) =
       order_items_backup (backup s) \<and>
     map oib_snapshot (drop (length (order_items_backup (backup s))) (order_items_backup (backup s'))) =
       map oia_snapshot (order_items_pending (main s)) \<and>
     order_items_pending (main s') = []"

text \<open>The snapshots of the five demo products as \<open>seed_demo\<close> inserts them into the emptied table.\<close>

definition products_demo_snapshots :: "(int \<times> string \<times> string option \<times> real) list" where
  "products_demo_snapshots =
     [(1, ''3-Pin Power Cable'', Some ''PC-3PIN-IND'', 160),
      (2, ''Industrial Soldering Iron 40W'', Some ''SLD-IRON-40W'', 680),
      (3, ''Raspberry Pi 4B (4GB RAM)'', Some ''RPI4-4GB'', 5200),
      (4, ''12V SMPS Adapter'', Some ''SMPS-12V-2A'', 450),
      (5, ''CCTV Camera 2MP HD'', Some ''CCTV-2MP-HD'', 1790)]"

text \<open>The number of backup records whose fields equal a given snapshot.\<close>

definition products_backup_count :: "db \<Rightarrow> int \<times> string \<times> string option \<times> real \<Rightarrow> nat" where
  "products_backup_count s x = count_list (map pb_snapshot (products_backup (backup s))) x"

definition order_items_backup_count :: "db \<Rightarrow> int \<times> int \<times> int option \<times> string \<times> real \<times> real \<Rightarrow> nat" where
  "order_items_backup_count s x = count_list (map oib_snapshot (order_items_backup (backup s))) x"

text \<open>The requests whose handlers insert into \<open>products\<close> or \<open>purchase_order_items\<close>.\<close>

fun inserts_tracked :: "request \<Rightarrow> bool" where
  "inserts_tracked SeedDemo = True"
| "inserts_tracked (AddProduct name sku price) = True"
| "inserts_tracked (AddItem oid desc qty price) = True"
| "inserts_tracked _ = False"

text \<open>A well-formed main database whose two ledgers are empty, as \<open>seed_demo\<close> makes it.\<close>

definition unledgered :: "main_db \<Rightarrow> bool" where
  "unledgered m \<longleftrightarrow> wf_main m \<and> products_backup_ids m = [] \<and> order_items_backup_ids m = []"

section \<open>A small history used for the concrete checks\<close>

text \<open>
  An environment without faults whose clock stands at \<open>t\<close>, and one in which every
  replication pass fails at its read.
\<close>

definition env_at :: "nat \<Rightarrow> env" where
  "env_at t = \<lparr>clock = (\<lambda>_. t), capture_fault = False, product_fault = NoFault,
     order_item_fault = NoFault\<rparr>"

definition env_no_pass :: env where
  "env_no_pass = \<lparr>clock = (\<lambda>_. 0), capture_fault = False, product_fault = ReadFails,
     order_item_fault = ReadFails\<rparr>"

text \<open>
  One supplier, one order, the product of the spec's scenario and one order item, all
  inserted while the backup could not be read: both audit rows are pending.
\<close>

definition pending_history :: "(env \<times> request) list" where
  "pending_history =
     [(env_no_pass, AddSupplier ''Alpha'' None None None None None None ''India''),
      (env_no_pass, AddOrder 1 None),
      (env_no_pass, AddProduct ''Widget'' ''W-1'' (999 / 100)),
      (env_no_pass, AddItem 1 ''Cable'' 10 160)]"

definition pending_main :: main_db where
  "pending_main =
     \<lparr>suppliers = [\<lparr>sup_supplier_id = 1, sup_name = ''Alpha'', sup_contact_name = None,
          sup_phone = None, sup_email = None, sup_address = None, sup_city = None,
          sup_state = None, sup_country = Some ''India'', sup_is_active = 1, sup_created_at = 0\<rparr>],
      products = [\<lparr>prod_product_id = 1, prod_name = ''Widget'', prod_sku = Some ''W-1'',
          prod_unit_price = 999 / 100, prod_is_active = 1, prod_created_at = 0\<rparr>],
      purchase_orders = [\<lparr>po_order_id = 1, po_supplier_id = 1, po_order_date = 0,
          po_status = ''DRAFT'', po_notes = None\<rparr>],
      purchase_order_items = [\<lparr>poi_item_id = 1, poi_order_id = 1, poi_product_id = None,
          poi_description = ''Cable'', poi_quantity = 10, poi_unit_price = 160\<rparr>],
      products_audit = [\<lparr>pa_audit_id = 1, pa_product_id = 1, pa_name = ''Widget'',
          pa_sku = Some ''W-1'', pa_unit_price = 999 / 100, pa_audit_time = 0\<rparr>],
      products_audit_seq = 1,
      order_items_audit = [\<lparr>oia_audit_id = 1, oia_item_id = 1, oia_order_id = 1,
          oia_product_id = None, oia_description = ''Cable'', oia_quantity = 10,
          oia_unit_price = 160, oia_audit_time = 0\<rparr>],
      order_items_audit_seq = 1,
      products_backup_ids = [], order_items_backup_ids = []\<rparr>"

definition pending_db :: db where
  "pending_db = \<lparr>main = pending_main, backup = init_backup\<rparr>"

text \<open>The same stores after the product pass alone has run without fault at time 7.\<close>

definition half_replicated_db :: db where
  "half_replicated_db =
     \<lparr>main = pending_main\<lparr>products_backup_ids := [1]\<rparr>,
      backup = \<lparr>products_backup = [\<lparr>pb_backup_id = 1, pb_product_id = 1, pb_name = ''Widget'',
                    pb_sku = Some ''W-1'', pb_unit_price = 999 / 100, pb_backed_up_at = 7\<rparr>],
                products_backup_seq = 1,
                order_items_backup = [], order_items_backup_seq = 0\<rparr>\<rparr>"

text \<open>The same stores after both passes have run without fault at time 7.\<close>

definition replicated_db :: db where
  "replicated_db =
     \<lparr>main = pending_main\<lparr>products_backup_ids := [1], order_items_backup_ids := [1]\<rparr>,
      backup = \<lparr>products_backup = [\<lparr>pb_backup_id = 1, pb_product_id = 1, pb_name = ''Widget'',
                    pb_sku = Some ''W-1'', pb_unit_price = 999 / 100, pb_backed_up_at = 7\<rparr>],
                products_backup_seq = 1,
                order_items_backup = [\<lparr>oib_backup_id = 1, oib_item_id = 1, oib_order_id = 1,
                    oib_product_id = None, oib_description = ''Cable'', oib_quantity = 10,
                    oib_unit_price = 160, oib_backed_up_at = 7\<rparr>],
                order_items_backup_seq = 1\<rparr>\<rparr>"





text \<open>The demo data seeded twice in a row.\<close>

definition seed_twice_history :: "(env \<times> request) list" where
  "seed_twice_history = [(env_at 5, SeedDemo), (env_at 9, SeedDemo)]"

text \<open>An environment in which the audit insert of every trigger fails.\<close>

definition env_no_capture :: env where
  "env_no_capture = \<lparr>clock = (\<lambda>_. 0), capture_fault = True, product_fault = NoFault,
     order_item_fault = NoFault\<rparr>"

text \<open>\<open>init_main\<close> after the product of the spec's scenario has been inserted at time 0.\<close>

definition widget_main :: main_db where
  "widget_main = init_main
     \<lparr>products := [\<lparr>prod_product_id = 1, prod_name = ''Widget'', prod_sku = Some ''W-1'',
          prod_unit_price = 999 / 100, prod_is_active = 1, prod_created_at = 0\<rparr>],
      products_audit := [\<lparr>pa_audit_id = 1, pa_product_id = 1, pa_name = ''Widget'',
          pa_sku = Some ''W-1'', pa_unit_price = 999 / 100, pa_audit_time = 0\<rparr>],
      products_audit_seq := 1\<rparr>"

text \<open>\<open>pending_main\<close> after a second item has been added to order 1 at time 3.\<close>

definition two_items_main :: main_db where
  "two_items_main = pending_main
     \<lparr>purchase_order_items := purchase_order_items pending_main @
        [\<lparr>poi_item_id = 2, poi_order_id = 1, poi_product_id = None,
          poi_description = ''Plug'', poi_quantity = 2, poi_unit_price = 30\<rparr>],
      order_items_audit := order_items_audit pending_main @
        [\<lparr>oia_audit_id = 2, oia_item_id = 2, oia_order_id = 1, oia_product_id = None,
          oia_description = ''Plug'', oia_quantity = 2, oia_unit_price = 30, oia_audit_time = 3\<rparr>],
      order_items_audit_seq := 2\<rparr>"

text \<open>
  Two products inserted while the backup could not be read: two pending audit rows.
\<close>

definition two_pending_history :: "(env \<times> request) list" where
  "two_pending_history =
     [(env_no_pass, AddProduct ''Widget'' ''W-1'' (999 / 100)),
      (env_no_pass, AddProduct ''Gadget'' ''G-1'' 5)]"

definition two_pending_main :: main_db where
  "two_pending_main = init_main
     \<lparr>products := [\<lparr>prod_product_id = 1, prod_name = ''Widget'', prod_sku = Some ''W-1'',
          prod_unit_price = 999 / 100, prod_is_active = 1, prod_created_at = 0\<rparr>,
        \<lparr>prod_product_id = 2, prod_name = ''Gadget'', prod_sku = Some ''G-1'',
          prod_unit_price = 5, prod_is_active = 1, prod_created_at = 0\<rparr>],
      products_audit := [\<lparr>pa_audit_id = 1, pa_product_id = 1, pa_name = ''Widget'',
          pa_sku = Some ''W-1'', pa_unit_price = 999 / 100, pa_audit_time = 0\<rparr>,
        \<lparr>pa_audit_id = 2, pa_product_id = 2, pa_name = ''Gadget'',
          pa_sku = Some ''G-1'', pa_unit_price = 5, pa_audit_time = 0\<rparr>],
      products_audit_seq := 2\<rparr>"

definition two_pending_db :: db where
  "two_pending_db = \<lparr>main = two_pending_main, backup = init_backup\<rparr>"

section \<open>What one replication pass does\<close>


lemma replicate_product_rows_Inr:
  "replicate_product_rows f now i rows m b = Inr (m', b') \<Longrightarrow>
     m' = m\<lparr>products_backup_ids := products_backup_ids m @ map pa_audit_id rows\<rparr> \<and>
     (\<exists>new seq'. b' = b\<lparr>products_backup := products_backup b @ new, products_backup_seq := seq'\<rparr> \<and>
        map pb_snapshot new = map pa_snapshot rows \<and>
        map pb_backed_up_at new = map now [i..<i + length rows])"
proof (induction rows arbitrary: i m b)
  case Nil
  then have "m' = m" "b' = b" by simp_all
  moreover have "b = b\<lparr>products_backup := products_backup b @ [], products_backup_seq := products_backup_seq b\<rparr>"
    by simp
  ultimately show ?case by (intro conjI exI[of _ "[]"] exI[of _ "products_backup_seq b"]) simp_all
next
  case (Cons r rows)
  from Cons.prems obtain m1 where
    m1: "insert_products_backup_ids (pa_audit_id r) m = Inr m1" and
    rec: "replicate_product_rows f now (Suc i) rows m1
            (insert_products_backup (now i) (pa_product_id r) (pa_name r) (pa_sku r) (pa_unit_price r) b) = Inr (m', b')"
    by (auto simp: Let_def split: if_splits sum.splits)
  from m1 have m1_eq: "m1 = m\<lparr>products_backup_ids := products_backup_ids m @ [pa_audit_id r]\<rparr>"
    by (auto simp: insert_products_backup_ids_def split: if_splits)
  from Cons.IH[OF rec] obtain new seq' where
    m': "m' = m1\<lparr>products_backup_ids := products_backup_ids m1 @ map pa_audit_id rows\<rparr>" and
    b': "b' = (insert_products_backup (now i) (pa_product_id r) (pa_name r) (pa_sku r) (pa_unit_price r) b)
              \<lparr>products_backup := products_backup (insert_products_backup (now i) (pa_product_id r) (pa_name r) (pa_sku r) (pa_unit_price r) b) @ new,
               products_backup_seq := seq'\<rparr>" and
    snap: "map pb_snapshot new = map pa_snapshot rows" and
    times: "map pb_backed_up_at new = map now [Suc i..<Suc i + length rows]"
    by blast
  have "m' = m\<lparr>products_backup_ids := products_backup_ids m @ map pa_audit_id (r # rows)\<rparr>"
    using m' m1_eq by simp
  moreover
  let ?row = "\<lparr>pb_backup_id = next_autoincrement (products_backup_seq b) (map pb_backup_id (products_backup b)),
                pb_product_id = pa_product_id r, pb_name = pa_name r, pb_sku = pa_sku r,
                pb_unit_price = pa_unit_price r, pb_backed_up_at = now i\<rparr>"
  have "b' = b\<lparr>products_backup := products_backup b @ (?row # new), products_backup_seq := seq'\<rparr>"
    using b' by (simp add: insert_products_backup_def Let_def)
  moreover have "map pb_snapshot (?row # new) = map pa_snapshot (r # rows)"
    using snap by (simp add: pb_snapshot_def pa_snapshot_def)
  moreover have upt: "[i..<i + length (r # rows)] = i # [Suc i..<Suc i + length rows]"
    by (simp add: upt_rec)
  have "map pb_backed_up_at (?row # new) = map now [i..<i + length (r # rows)]"
    unfolding upt using times by simp
  ultimately show ?case by blast
qed

lemma replicate_product_rows_NoFault:
  "distinct (map pa_audit_id rows) \<Longrightarrow>
   set (map pa_audit_id rows) \<inter> set (products_backup_ids m) = {} \<Longrightarrow>
   \<exists>m' b'. replicate_product_rows NoFault now i rows m b = Inr (m', b')"
proof (induction rows arbitrary: i m b)
  case Nil
  then show ?case by simp
next
  case (Cons r rows)
  let ?m1 = "m\<lparr>products_backup_ids := products_backup_ids m @ [pa_audit_id r]\<rparr>"
  have ins: "insert_products_backup_ids (pa_audit_id r) m = Inr ?m1"
    using Cons.prems by (simp add: insert_products_backup_ids_def)
  have "distinct (map pa_audit_id rows)" using Cons.prems by simp
  moreover have "set (map pa_audit_id rows) \<inter> set (products_backup_ids ?m1) = {}"
    using Cons.prems by auto
  ultimately obtain m' b' where
    "replicate_product_rows NoFault now (Suc i) rows ?m1
       (insert_products_backup (now i) (pa_product_id r) (pa_name r) (pa_sku r) (pa_unit_price r) b) = Inr (m', b')"
    using Cons.IH by blast
  then show ?case using ins by (simp add: Let_def)
qed

lemma replicate_product_rows_BackupWriteFails:
  "i \<le> k \<Longrightarrow> k < i + length rows \<Longrightarrow>
   \<exists>e. replicate_product_rows (BackupWriteFails k) now i rows m b = Inl e"
proof (induction rows arbitrary: i m b)
  case Nil
  then show ?case by simp
next
  case (Cons r rows)
  show ?case
  proof (cases "k = i")
    case True
    then show ?thesis by simp
  next
    case False
    then have "Suc i \<le> k" "k < Suc i + length rows" using Cons.prems by auto
    from Cons.IH[OF this] show ?thesis
      by (auto simp: Let_def split: sum.splits)
  qed
qed

lemma replicate_product_rows_LedgerWriteFails:
  "i \<le> k \<Longrightarrow> k < i + length rows \<Longrightarrow>
   \<exists>e. replicate_product_rows (LedgerWriteFails k) now i rows m b = Inl e"
proof (induction rows arbitrary: i m b)
  case Nil
  then show ?case by simp
next
  case (Cons r rows)
  show ?case
  proof (cases "k = i")
    case True
    then show ?thesis by simp
  next
    case False
    then have "Suc i \<le> k" "k < Suc i + length rows" using Cons.prems by auto
    from Cons.IH[OF this] show ?thesis
      by (auto simp: Let_def split: sum.splits)
  qed
qed


lemma products_pending_ids_fresh:
  "set (map pa_audit_id (products_pending m)) \<inter> set (products_backup_ids m) = {}"
  by (auto simp: products_pending_def)

lemma products_pending_ids_distinct:
  "distinct (map pa_audit_id (products_audit m)) \<Longrightarrow> distinct (map pa_audit_id (products_pending m))"
  by (simp add: products_pending_def distinct_map_filter)

lemma replicate_product_unfold:
  "replicate_product_to_backup f now s =
     (if f = ReadFails then (Some OperationalError, s)
      else case replicate_product_rows f now 0 (products_pending (main s)) (main s) (backup s) of
                Inl e \<Rightarrow> (Some e, s)
              | Inr (m', b') \<Rightarrow>
                  if f = MainCommitFails then (Some OperationalError, s)
                  else if f = BackupCommitFails then (Some Interrupted, s\<lparr>main := m'\<rparr>)
                  else (None, \<lparr>main = m', backup = b'\<rparr>))"
  by (simp add: replicate_product_to_backup_def products_pending_def Let_def)

lemma replicate_product_success:
  assumes "replicate_product_to_backup f now s = (None, s')"
  shows "main s' = (main s)\<lparr>products_backup_ids :=
            products_backup_ids (main s) @ map pa_audit_id (products_pending (main s))\<rparr>"
    and "\<exists>new seq'. backup s' = (backup s)\<lparr>products_backup := products_backup (backup s) @ new,
                                           products_backup_seq := seq'\<rparr> \<and>
            map pb_snapshot new = map pa_snapshot (products_pending (main s)) \<and>
            map pb_backed_up_at new = map now [0..<length (products_pending (main s))]"
proof -
  from assms obtain m' b' where
    loop: "replicate_product_rows f now 0 (products_pending (main s)) (main s) (backup s) = Inr (m', b')"
    and s': "s' = \<lparr>main = m', backup = b'\<rparr>"
    by (auto simp: replicate_product_unfold split: if_splits sum.splits)
  from replicate_product_rows_Inr[OF loop] s'
  show "main s' = (main s)\<lparr>products_backup_ids :=
            products_backup_ids (main s) @ map pa_audit_id (products_pending (main s))\<rparr>"
    and "\<exists>new seq'. backup s' = (backup s)\<lparr>products_backup := products_backup (backup s) @ new,
                                           products_backup_seq := seq'\<rparr> \<and>
            map pb_snapshot new = map pa_snapshot (products_pending (main s)) \<and>
            map pb_backed_up_at new = map now [0..<length (products_pending (main s))]"
    by simp_all
qed

lemma replicate_product_failure:
  assumes "replicate_product_to_backup f now s = (Some e, s')"
  shows "s' = s \<or> (f = BackupCommitFails \<and> backup s' = backup s \<and>
           main s' = (main s)\<lparr>products_backup_ids :=
             products_backup_ids (main s) @ map pa_audit_id (products_pending (main s))\<rparr>)"
proof (cases "replicate_product_rows f now 0 (products_pending (main s)) (main s) (backup s)")
  case (Inl a)
  then show ?thesis using assms by (auto simp: replicate_product_unfold split: if_splits)
next
  case (Inr p)
  obtain m' b' where p: "p = (m', b')" by (cases p)
  from replicate_product_rows_Inr[OF Inr[unfolded p]] assms Inr p
  show ?thesis by (auto simp: replicate_product_unfold split: if_splits)
qed

lemma replicate_product_NoFault:
  assumes "distinct (map pa_audit_id (products_audit (main s)))"
  shows "fst (replicate_product_to_backup NoFault now s) = None"
proof -
  obtain m' b' where
    "replicate_product_rows NoFault now 0 (products_pending (main s)) (main s) (backup s) = Inr (m', b')"
    using replicate_product_rows_NoFault[OF products_pending_ids_distinct[OF assms] products_pending_ids_fresh] by blast
  then show ?thesis by (simp add: replicate_product_unfold)
qed


lemma replicate_order_item_rows_Inr:
  "replicate_order_item_rows f now i rows m b = Inr (m', b') \<Longrightarrow>
     m' = m\<lparr>order_items_backup_ids := order_items_backup_ids m @ map oia_audit_id rows\<rparr> \<and>
     (\<exists>new seq'. b' = b\<lparr>order_items_backup := order_items_backup b @ new, order_items_backup_seq := seq'\<rparr> \<and>
        map oib_snapshot new = map oia_snapshot rows \<and>
        map oib_backed_up_at new = map now [i..<i + length rows])"
proof (induction rows arbitrary: i m b)
  case Nil
  then have "m' = m" "b' = b" by simp_all
  moreover have "b = b\<lparr>order_items_backup := order_items_backup b @ [], order_items_backup_seq := order_items_backup_seq b\<rparr>"
    by simp
  ultimately show ?case by (intro conjI exI[of _ "[]"] exI[of _ "order_items_backup_seq b"]) simp_all
next
  case (Cons r rows)
  from Cons.prems obtain m1 where
    m1: "insert_order_items_backup_ids (oia_audit_id r) m = Inr m1" and
    rec: "replicate_order_item_rows f now (Suc i) rows m1
            (insert_order_items_backup (now i) (oia_item_id r) (oia_order_id r) (oia_product_id r) (oia_description r) (oia_quantity r) (oia_unit_price r) b) = Inr (m', b')"
    by (auto simp: Let_def split: if_splits sum.splits)
  from m1 have m1_eq: "m1 = m\<lparr>order_items_backup_ids := order_items_backup_ids m @ [oia_audit_id r]\<rparr>"
    by (auto simp: insert_order_items_backup_ids_def split: if_splits)
  from Cons.IH[OF rec] obtain new seq' where
    m': "m' = m1\<lparr>order_items_backup_ids := order_items_backup_ids m1 @ map oia_audit_id rows\<rparr>" and
    b': "b' = (insert_order_items_backup (now i) (oia_item_id r) (oia_order_id r) (oia_product_id r) (oia_description r) (oia_quantity r) (oia_unit_price r) b)
              \<lparr>order_items_backup := order_items_backup (insert_order_items_backup (now i) (oia_item_id r) (oia_order_id r) (oia_product_id r) (oia_description r) (oia_quantity r) (oia_unit_price r) b) @ new,
               order_items_backup_seq := seq'\<rparr>" and
    snap: "map oib_snapshot new = map oia_snapshot rows" and
    times: "map oib_backed_up_at new = map now [Suc i..<Suc i + length rows]"
    by blast
  have "m' = m\<lparr>order_items_backup_ids := order_items_backup_ids m @ map oia_audit_id (r # rows)\<rparr>"
    using m' m1_eq by simp
  moreover
  let ?row = "\<lparr>oib_backup_id = next_autoincrement (order_items_backup_seq b) (map oib_backup_id (order_items_backup b)),
                oib_item_id = oia_item_id r, oib_order_id = oia_order_id r, oib_product_id = oia_product_id r,
                oib_description = oia_description r, oib_quantity = oia_quantity r,
                oib_unit_price = oia_unit_price r, oib_backed_up_at = now i\<rparr>"
  have "b' = b\<lparr>order_items_backup := order_items_backup b @ (?row # new), order_items_backup_seq := seq'\<rparr>"
    using b' by (simp add: insert_order_items_backup_def Let_def)
  moreover have "map oib_snapshot (?row # new) = map oia_snapshot (r # rows)"
    using snap by (simp add: oib_snapshot_def oia_snapshot_def)
  moreover have upt: "[i..<i + length (r # rows)] = i # [Suc i..<Suc i + length rows]"
    by (simp add: upt_rec)
  have "map oib_backed_up_at (?row # new) = map now [i..<i + length (r # rows)]"
    unfolding upt using times by simp
  ultimately show ?case by blast
qed

lemma replicate_order_item_rows_NoFault:
  "distinct (map oia_audit_id rows) \<Longrightarrow>
   set (map oia_audit_id rows) \<inter> set (order_items_backup_ids m) = {} \<Longrightarrow>
   \<exists>m' b'. replicate_order_item_rows NoFault now i rows m b = Inr (m', b')"
proof (induction rows arbitrary: i m b)
  case Nil
  then show ?case by simp
next
  case (Cons r rows)
  let ?m1 = "m\<lparr>order_items_backup_ids := order_items_backup_ids m @ [oia_audit_id r]\<rparr>"
  have ins: "insert_order_items_backup_ids (oia_audit_id r) m = Inr ?m1"
    using Cons.prems by (simp add: insert_order_items_backup_ids_def)
  have "distinct (map oia_audit_id rows)" using Cons.prems by simp
  moreover have "set (map oia_audit_id rows) \<inter> set (order_items_backup_ids ?m1) = {}"
    using Cons.prems by auto
  ultimately obtain m' b' where
    "replicate_order_item_rows NoFault now (Suc i) rows ?m1
       (insert_order_items_backup (now i) (oia_item_id r) (oia_order_id r) (oia_product_id r) (oia_description r) (oia_quantity r) (oia_unit_price r) b) = Inr (m', b')"
    using Cons.IH by blast
  then show ?case using ins by (simp add: Let_def)
qed

lemma replicate_order_item_rows_BackupWriteFails:
  "i \<le> k \<Longrightarrow> k < i + length rows \<Longrightarrow>
   \<exists>e. replicate_order_item_rows (BackupWriteFails k) now i rows m b = Inl e"
proof (induction rows arbitrary: i m b)
  case Nil
  then show ?case by simp
next
  case (Cons r rows)
  show ?case
  proof (cases "k = i")
    case True
    then show ?thesis by simp
  next
    case False
    then have "Suc i \<le> k" "k < Suc i + length rows" using Cons.prems by auto
    from Cons.IH[OF this] show ?thesis
      by (auto simp: Let_def split: sum.splits)
  qed
qed

lemma replicate_order_item_rows_LedgerWriteFails:
  "i \<le> k \<Longrightarrow> k < i + length rows \<Longrightarrow>
   \<exists>e. replicate_order_item_rows (LedgerWriteFails k) now i rows m b = Inl e"
proof (induction rows arbitrary: i m b)
  case Nil
  then show ?case by simp
next
  case (Cons r rows)
  show ?case
  proof (cases "k = i")
    case True
    then show ?thesis by simp
  next
    case False
    then have "Suc i \<le> k" "k < Suc i + length rows" using Cons.prems by auto
    from Cons.IH[OF this] show ?thesis
      by (auto simp: Let_def split: sum.splits)
  qed
qed


lemma order_items_pending_ids_fresh:
  "set (map oia_audit_id (order_items_pending m)) \<inter> set (order_items_backup_ids m) = {}"
  by (auto simp: order_items_pending_def)

lemma order_items_pending_ids_distinct:
  "distinct (map oia_audit_id (order_items_audit m)) \<Longrightarrow> distinct (map oia_audit_id (order_items_pending m))"
  by (simp add: order_items_pending_def distinct_map_filter)

lemma replicate_order_item_unfold:
  "replicate_order_item_to_backup f now s =
     (if f = ReadFails then (Some OperationalError, s)
      else case replicate_order_item_rows f now 0 (order_items_pending (main s)) (main s) (backup s) of
                Inl e \<Rightarrow> (Some e, s)
              | Inr (m', b') \<Rightarrow>
                  if f = MainCommitFails then (Some OperationalError, s)
                  else if f = BackupCommitFails then (Some Interrupted, s\<lparr>main := m'\<rparr>)
                  else (None, \<lparr>main = m', backup = b'\<rparr>))"
  by (simp add: replicate_order_item_to_backup_def order_items_pending_def Let_def)

lemma replicate_order_item_success:
  assumes "replicate_order_item_to_backup f now s = (None, s')"
  shows "main s' = (main s)\<lparr>order_items_backup_ids :=
            order_items_backup_ids (main s) @ map oia_audit_id (order_items_pending (main s))\<rparr>"
    and "\<exists>new seq'. backup s' = (backup s)\<lparr>order_items_backup := order_items_backup (backup s) @ new,
                                           order_items_backup_seq := seq'\<rparr> \<and>
            map oib_snapshot new = map oia_snapshot (order_items_pending (main s)) \<and>
            map oib_backed_up_at new = map now [0..<length (order_items_pending (main s))]"
proof -
  from assms obtain m' b' where
    loop: "replicate_order_item_rows f now 0 (order_items_pending (main s)) (main s) (backup s) = Inr (m', b')"
    and s': "s' = \<lparr>main = m', backup = b'\<rparr>"
    by (auto simp: replicate_order_item_unfold split: if_splits sum.splits)
  from replicate_order_item_rows_Inr[OF loop] s'
  show "main s' = (main s)\<lparr>order_items_backup_ids :=
            order_items_backup_ids (main s) @ map oia_audit_id (order_items_pending (main s))\<rparr>"
    and "\<exists>new seq'. backup s' = (backup s)\<lparr>order_items_backup := order_items_backup (backup s) @ new,
                                           order_items_backup_seq := seq'\<rparr> \<and>
            map oib_snapshot new = map oia_snapshot (order_items_pending (main s)) \<and>
            map oib_backed_up_at new = map now [0..<length (order_items_pending (main s))]"
    by simp_all
qed

lemma replicate_order_item_failure:
  assumes "replicate_order_item_to_backup f now s = (Some e, s')"
  shows "s' = s \<or> (f = BackupCommitFails \<and> backup s' = backup s \<and>
           main s' = (main s)\<lparr>order_items_backup_ids :=
             order_items_backup_ids (main s) @ map oia_audit_id (order_items_pending (main s))\<rparr>)"
proof (cases "replicate_order_item_rows f now 0 (order_items_pending (main s)) (main s) (backup s)")
  case (Inl a)
  then show ?thesis using assms by (auto simp: replicate_order_item_unfold split: if_splits)
next
  case (Inr p)
  obtain m' b' where p: "p = (m', b')" by (cases p)
  from replicate_order_item_rows_Inr[OF Inr[unfolded p]] assms Inr p
  show ?thesis by (auto simp: replicate_order_item_unfold split: if_splits)
qed

lemma replicate_order_item_NoFault:
  assumes "distinct (map oia_audit_id (order_items_audit (main s)))"
  shows "fst (replicate_order_item_to_backup NoFault now s) = None"
proof -
  obtain m' b' where
    "replicate_order_item_rows NoFault now 0 (order_items_pending (main s)) (main s) (backup s) = Inr (m', b')"
    using replicate_order_item_rows_NoFault[OF order_items_pending_ids_distinct[OF assms] order_items_pending_ids_fresh] by blast
  then show ?thesis by (simp add: replicate_order_item_unfold)
qed

section \<open>Evaluation of the concrete history\<close>

lemmas eval_defs = env_at_def env_no_pass_def init_db_def init_main_def init_backup_def
   insert_suppliers_def insert_products_def trg_products_audit_def
   insert_purchase_orders_def insert_purchase_order_items_def trg_order_items_audit_def
   next_rowid_def next_autoincrement_def
   replicate_product_to_backup_def replicate_order_item_to_backup_def
   insert_products_backup_def insert_products_backup_ids_def
   insert_order_items_backup_def insert_order_items_backup_ids_def
   add_product_def add_item_def add_supplier_def add_order_def dashboard_def
   pending_db_def pending_main_def replicated_db_def half_replicated_db_def pending_history_def

lemma pending_db_reachable: "run pending_history init_db = pending_db"
  by (simp add: eval_defs)

lemma pending_db_product_pass:
  "replicate_product_to_backup NoFault (\<lambda>_. 7) pending_db = (None, half_replicated_db)"
  by (simp add: eval_defs)

lemma half_replicated_db_item_pass:
  "replicate_order_item_to_backup NoFault (\<lambda>_. 7) half_replicated_db = (None, replicated_db)"
  by (simp add: eval_defs)

lemma pending_db_dashboard: "handle (env_at 7) Dashboard pending_db = (None, replicated_db)"
  by (simp add: dashboard_def env_at_def pending_db_product_pass half_replicated_db_item_pass)

lemma pending_db_pending:
  "length (products_pending (main pending_db)) = 1"
  "length (order_items_pending (main pending_db)) = 1"
  by (simp_all add: products_pending_def order_items_pending_def pending_db_def pending_main_def)

section \<open>Idempotence, failure atomicity and frame of a pass\<close>

lemma products_pending_after:
  "products_pending (m\<lparr>products_backup_ids := products_backup_ids m @ map pa_audit_id (products_pending m)\<rparr>) = []"
  by (auto simp: products_pending_def filter_empty_conv)

lemma order_items_pending_after:
  "order_items_pending (m\<lparr>order_items_backup_ids := order_items_backup_ids m @ map oia_audit_id (order_items_pending m)\<rparr>) = []"
  by (auto simp: order_items_pending_def filter_empty_conv)

lemma replicate_product_nothing_pending:
  "products_pending (main s) = [] \<Longrightarrow> snd (replicate_product_to_backup f now s) = s"
  by (simp add: replicate_product_unfold)

lemma replicate_order_item_nothing_pending:
  "order_items_pending (main s) = [] \<Longrightarrow> snd (replicate_order_item_to_backup f now s) = s"
  by (simp add: replicate_order_item_unfold)

lemma replicate_product_twice:
  assumes "replicate_product_to_backup f now s = (None, s1)"
  shows "replicate_product_to_backup NoFault now' s1 = (None, s1)"
    and "snd (replicate_product_to_backup f' now' s1) = s1"
proof -
  have p: "products_pending (main s1) = []"
    using replicate_product_success(1)[OF assms] products_pending_after by simp
  show "replicate_product_to_backup NoFault now' s1 = (None, s1)"
    using p by (simp add: replicate_product_unfold)
  show "snd (replicate_product_to_backup f' now' s1) = s1"
    using p by (rule replicate_product_nothing_pending)
qed

lemma replicate_order_item_twice:
  assumes "replicate_order_item_to_backup f now s = (None, s1)"
  shows "replicate_order_item_to_backup NoFault now' s1 = (None, s1)"
    and "snd (replicate_order_item_to_backup f' now' s1) = s1"
proof -
  have p: "order_items_pending (main s1) = []"
    using replicate_order_item_success(1)[OF assms] order_items_pending_after by simp
  show "replicate_order_item_to_backup NoFault now' s1 = (None, s1)"
    using p by (simp add: replicate_order_item_unfold)
  show "snd (replicate_order_item_to_backup f' now' s1) = s1"
    using p by (rule replicate_order_item_nothing_pending)
qed

section \<open>Failures inside a pass, and what a pass may touch\<close>


lemma replicate_product_write_failure:
  assumes "k < length (products_pending (main s))"
  shows "\<exists>e. replicate_product_to_backup (BackupWriteFails k) now s = (Some e, s)"
    and "\<exists>e. replicate_product_to_backup (LedgerWriteFails k) now s = (Some e, s)"
proof -
  from assms obtain e where
    "replicate_product_rows (BackupWriteFails k) now 0 (products_pending (main s)) (main s) (backup s) = Inl e"
    using replicate_product_rows_BackupWriteFails[of 0 k "products_pending (main s)" now "main s" "backup s"] by auto
  then show "\<exists>e. replicate_product_to_backup (BackupWriteFails k) now s = (Some e, s)"
    by (simp add: replicate_product_unfold)
  from assms obtain e where
    "replicate_product_rows (LedgerWriteFails k) now 0 (products_pending (main s)) (main s) (backup s) = Inl e"
    using replicate_product_rows_LedgerWriteFails[of 0 k "products_pending (main s)" now "main s" "backup s"] by auto
  then show "\<exists>e. replicate_product_to_backup (LedgerWriteFails k) now s = (Some e, s)"
    by (simp add: replicate_product_unfold)
qed

lemma replicate_order_item_write_failure:
  assumes "k < length (order_items_pending (main s))"
  shows "\<exists>e. replicate_order_item_to_backup (BackupWriteFails k) now s = (Some e, s)"
    and "\<exists>e. replicate_order_item_to_backup (LedgerWriteFails k) now s = (Some e, s)"
proof -
  from assms obtain e where
    "replicate_order_item_rows (BackupWriteFails k) now 0 (order_items_pending (main s)) (main s) (backup s) = Inl e"
    using replicate_order_item_rows_BackupWriteFails[of 0 k "order_items_pending (main s)" now "main s" "backup s"] by auto
  then show "\<exists>e. replicate_order_item_to_backup (BackupWriteFails k) now s = (Some e, s)"
    by (simp add: replicate_order_item_unfold)
  from assms obtain e where
    "replicate_order_item_rows (LedgerWriteFails k) now 0 (order_items_pending (main s)) (main s) (backup s) = Inl e"
    using replicate_order_item_rows_LedgerWriteFails[of 0 k "order_items_pending (main s)" now "main s" "backup s"] by auto
  then show "\<exists>e. replicate_order_item_to_backup (LedgerWriteFails k) now s = (Some e, s)"
    by (simp add: replicate_order_item_unfold)
qed

lemma replicate_product_frame:
  "\<exists>ids rows seq'. snd (replicate_product_to_backup f now s) =
     \<lparr>main = (main s)\<lparr>products_backup_ids := products_backup_ids (main s) @ ids\<rparr>,
      backup = (backup s)\<lparr>products_backup := products_backup (backup s) @ rows,
                           products_backup_seq := seq'\<rparr>\<rparr>"
proof (cases "replicate_product_to_backup f now s")
  case (Pair r s')
  have same: "s = \<lparr>main = (main s)\<lparr>products_backup_ids := products_backup_ids (main s) @ []\<rparr>,
      backup = (backup s)\<lparr>products_backup := products_backup (backup s) @ [],
                           products_backup_seq := products_backup_seq (backup s)\<rparr>\<rparr>"
    by simp
  show ?thesis
  proof (cases r)
    case None
    from replicate_product_success[OF Pair[unfolded None]] obtain new seq' where
      m: "main s' = (main s)\<lparr>products_backup_ids :=
            products_backup_ids (main s) @ map pa_audit_id (products_pending (main s))\<rparr>"
      and b: "backup s' = (backup s)\<lparr>products_backup := products_backup (backup s) @ new,
                                           products_backup_seq := seq'\<rparr>"
      by blast
    have "s' = \<lparr>main = main s', backup = backup s'\<rparr>" by simp
    then show ?thesis unfolding Pair snd_conv m b by blast
  next
    case (Some e)
    from replicate_product_failure[OF Pair[unfolded Some]]
    show ?thesis
    proof
      assume "s' = s"
      then show ?thesis unfolding Pair snd_conv using same by metis
    next
      assume a: "f = BackupCommitFails \<and> backup s' = backup s \<and>
           main s' = (main s)\<lparr>products_backup_ids :=
             products_backup_ids (main s) @ map pa_audit_id (products_pending (main s))\<rparr>"
      have "s' = \<lparr>main = main s', backup = (backup s)\<lparr>products_backup := products_backup (backup s) @ [],
                           products_backup_seq := products_backup_seq (backup s)\<rparr>\<rparr>"
        using a by simp
      then show ?thesis unfolding Pair snd_conv using a by metis
    qed
  qed
qed

lemma replicate_order_item_frame:
  "\<exists>ids rows seq'. snd (replicate_order_item_to_backup f now s) =
     \<lparr>main = (main s)\<lparr>order_items_backup_ids := order_items_backup_ids (main s) @ ids\<rparr>,
      backup = (backup s)\<lparr>order_items_backup := order_items_backup (backup s) @ rows,
                           order_items_backup_seq := seq'\<rparr>\<rparr>"
proof (cases "replicate_order_item_to_backup f now s")
  case (Pair r s')
  have same: "s = \<lparr>main = (main s)\<lparr>order_items_backup_ids := order_items_backup_ids (main s) @ []\<rparr>,
      backup = (backup s)\<lparr>order_items_backup := order_items_backup (backup s) @ [],
                           order_items_backup_seq := order_items_backup_seq (backup s)\<rparr>\<rparr>"
    by simp
  show ?thesis
  proof (cases r)
    case None
    from replicate_order_item_success[OF Pair[unfolded None]] obtain new seq' where
      m: "main s' = (main s)\<lparr>order_items_backup_ids :=
            order_items_backup_ids (main s) @ map oia_audit_id (order_items_pending (main s))\<rparr>"
      and b: "backup s' = (backup s)\<lparr>order_items_backup := order_items_backup (backup s) @ new,
                                           order_items_backup_seq := seq'\<rparr>"
      by blast
    have "s' = \<lparr>main = main s', backup = backup s'\<rparr>" by simp
    then show ?thesis unfolding Pair snd_conv m b by blast
  next
    case (Some e)
    from replicate_order_item_failure[OF Pair[unfolded Some]]
    show ?thesis
    proof
      assume "s' = s"
      then show ?thesis unfolding Pair snd_conv using same by metis
    next
      assume a: "f = BackupCommitFails \<and> backup s' = backup s \<and>
           main s' = (main s)\<lparr>order_items_backup_ids :=
             order_items_backup_ids (main s) @ map oia_audit_id (order_items_pending (main s))\<rparr>"
      have "s' = \<lparr>main = main s', backup = (backup s)\<lparr>order_items_backup := order_items_backup (backup s) @ [],
                           order_items_backup_seq := order_items_backup_seq (backup s)\<rparr>\<rparr>"
        using a by simp
      then show ?thesis unfolding Pair snd_conv using a by metis
    qed
  qed
qed

text \<open>
  C10. Whatever happens to it, a pass of \<open>replicate_product_to_backup\<close> changes
  nothing but \<open>products_backup_ids\<close> in the main database and \<open>products_backup\<close>
  (with the counter of its \<open>AUTOINCREMENT\<close> column) in the backup database, and these
  two tables only get rows appended: no row of any table is changed or removed. With an
  empty pending set the pass writes nothing. The same for
  \<open>replicate_order_item_to_backup\<close> and its two tables.
\<close>

theorem replication_frame:
  "(\<exists>ids rows seq'. snd (replicate_product_to_backup f now s) =
      \<lparr>main = (main s)\<lparr>products_backup_ids := products_backup_ids (main s) @ ids\<rparr>,
       backup = (backup s)\<lparr>products_backup := products_backup (backup s) @ rows,
                            products_backup_seq := seq'\<rparr>\<rparr>) \<and>
   (products_pending (main s) = [] \<longrightarrow> snd (replicate_product_to_backup f now s) = s) \<and>
   (\<exists>ids rows seq'. snd (replicate_order_item_to_backup f now s) =
      \<lparr>main = (main s)\<lparr>order_items_backup_ids := order_items_backup_ids (main s) @ ids\<rparr>,
       backup = (backup s)\<lparr>order_items_backup := order_items_backup (backup s) @ rows,
                            order_items_backup_seq := seq'\<rparr>\<rparr>) \<and>
   (order_items_pending (main s) = [] \<longrightarrow> snd (replicate_order_item_to_backup f now s) = s)"
  using replicate_product_frame[of f now s] replicate_order_item_frame[of f now s]
    replicate_product_nothing_pending[of s f now] replicate_order_item_nothing_pending[of s f now]
  by (intro conjI impI)

theorem replication_frame_witness:
  "products_pending (main replicated_db) = [] \<and>
   order_items_pending (main replicated_db) = [] \<and>
   snd (replicate_product_to_backup NoFault (\<lambda>_. 9) replicated_db) = replicated_db \<and>
   snd (replicate_order_item_to_backup NoFault (\<lambda>_. 9) replicated_db) = replicated_db"
proof -
  have "products_pending (main replicated_db) = []" "order_items_pending (main replicated_db) = []"
    by (simp_all add: products_pending_def order_items_pending_def replicated_db_def pending_main_def)
  then show ?thesis
    using replication_frame[of NoFault "\<lambda>_. 9" replicated_db] by simp
qed

section \<open>Fresh identifiers\<close>

lemma next_autoincrement_gt_seq: "seq < next_autoincrement seq ids"
  by (simp add: next_autoincrement_def)

lemma next_autoincrement_gt_ids: "x \<in> set ids \<Longrightarrow> x < next_autoincrement seq ids"
proof -
  assume a: "x \<in> set ids"
  then have "ids \<noteq> []" by auto
  moreover have "x \<le> Max (set ids)" using a by simp
  ultimately show ?thesis by (simp add: next_autoincrement_def)
qed

lemma next_rowid_gt: "x \<in> set ids \<Longrightarrow> x < next_rowid ids"
proof -
  assume a: "x \<in> set ids"
  then have "ids \<noteq> []" by auto
  moreover have "x \<le> Max (set ids)" using a by simp
  ultimately show ?thesis by (simp add: next_rowid_def)
qed

lemma next_rowid_fresh: "next_rowid ids \<notin> set ids"
  using next_rowid_gt[of "next_rowid ids" ids] by auto

section \<open>What an insert into a tracked table does\<close>

lemma insert_products_Inr:
  assumes "insert_products fl now name sku price m = Inr m'"
  shows "\<exists>p a. m' = m\<lparr>products := products m @ [p], products_audit := products_audit m @ [a],
                       products_audit_seq := pa_audit_id a\<rparr> \<and>
           prod_product_id p = next_rowid (map prod_product_id (products m)) \<and>
           prod_name p = name \<and> prod_sku p = sku \<and> prod_unit_price p = price \<and>
           pa_snapshot a = prod_snapshot p \<and> pa_audit_time a = now \<and>
           pa_audit_id a = next_autoincrement (products_audit_seq m) (map pa_audit_id (products_audit m))"
proof -
  let ?p = "\<lparr>prod_product_id = next_rowid (map prod_product_id (products m)),
             prod_name = name, prod_sku = sku, prod_unit_price = price,
             prod_is_active = 1, prod_created_at = now div 86400\<rparr>"
  let ?a = "\<lparr>pa_audit_id = next_autoincrement (products_audit_seq m) (map pa_audit_id (products_audit m)),
             pa_product_id = prod_product_id ?p, pa_name = name, pa_sku = sku,
             pa_unit_price = price, pa_audit_time = now\<rparr>"
  from assms have "m' = m\<lparr>products := products m @ [?p], products_audit := products_audit m @ [?a],
                       products_audit_seq := pa_audit_id ?a\<rparr>"
    by (simp add: insert_products_def trg_products_audit_def Let_def split: if_splits)
  moreover have "pa_snapshot ?a = prod_snapshot ?p"
    by (simp add: pa_snapshot_def prod_snapshot_def)
  ultimately show ?thesis
    by (intro exI[of _ ?p] exI[of _ ?a]) simp
qed

lemma insert_products_wf:
  assumes wf: "wf_products m" and ins: "insert_products fl now name sku price m = Inr m'"
  shows "wf_products m'"
proof -
  from insert_products_Inr[OF ins] obtain p a where
    m': "m' = m\<lparr>products := products m @ [p], products_audit := products_audit m @ [a],
                       products_audit_seq := pa_audit_id a\<rparr>" and
    pid: "prod_product_id p = next_rowid (map prod_product_id (products m))" and
    snap: "pa_snapshot a = prod_snapshot p" and
    aid: "pa_audit_id a = next_autoincrement (products_audit_seq m) (map pa_audit_id (products_audit m))"
    by blast
  have gt: "\<forall>x \<in> set (products_audit m). pa_audit_id x < pa_audit_id a"
    unfolding aid using next_autoincrement_gt_ids by auto
  have d1: "distinct (map pa_audit_id (products_audit m @ [a]))"
    using wf gt by (auto simp: wf_products_def)
  have d2: "list_all (\<lambda>x. pa_audit_id x \<le> pa_audit_id a) (products_audit m @ [a])"
    using gt by (auto simp: list_all_iff intro: less_imp_le)
  have d3: "distinct (map prod_product_id (products m @ [p]))"
    using wf pid next_rowid_fresh[of "map prod_product_id (products m)"] by (auto simp: wf_products_def)
  have d4: "map pa_snapshot (products_audit m @ [a]) = map prod_snapshot (products m @ [p])"
    using wf snap by (simp add: wf_products_def)
  have d5: "set (products_backup_ids m) \<subseteq> set (map pa_audit_id (products_audit m @ [a]))"
    using wf by (auto simp: wf_products_def)
  have d6: "distinct (products_backup_ids m)" using wf by (simp add: wf_products_def)
  show ?thesis
    unfolding wf_products_def m' using d1 d2 d3 d4 d5 d6 by simp
qed

lemma insert_products_ledgered:
  assumes wf: "wf_products m" and ins: "insert_products fl now name sku price m = Inr m'"
  shows "products_ledgered m' = products_ledgered m"
    and "products_backup_ids m' = products_backup_ids m"
proof -
  from insert_products_Inr[OF ins] obtain p a where
    m': "m' = m\<lparr>products := products m @ [p], products_audit := products_audit m @ [a],
                       products_audit_seq := pa_audit_id a\<rparr>" and
    aid: "pa_audit_id a = next_autoincrement (products_audit_seq m) (map pa_audit_id (products_audit m))"
    by blast
  have "pa_audit_id a \<notin> set (map pa_audit_id (products_audit m))"
    unfolding aid using next_autoincrement_gt_ids[of _ "map pa_audit_id (products_audit m)" "products_audit_seq m"]
    by blast
  then have "pa_audit_id a \<notin> set (products_backup_ids m)"
    using wf by (auto simp: wf_products_def)
  then show "products_ledgered m' = products_ledgered m"
    by (simp add: products_ledgered_def m')
  show "products_backup_ids m' = products_backup_ids m" by (simp add: m')
qed

lemma insert_products_other:
  assumes "insert_products fl now name sku price m = Inr m'"
  shows "order_items_audit m' = order_items_audit m"
    "order_items_audit_seq m' = order_items_audit_seq m"
    "order_items_backup_ids m' = order_items_backup_ids m"
    "purchase_order_items m' = purchase_order_items m"
    "purchase_orders m' = purchase_orders m"
    "suppliers m' = suppliers m"
  using insert_products_Inr[OF assms] by auto


lemma insert_purchase_order_items_Inr:
  assumes "insert_purchase_order_items fl now oid d q price m = Inr m'"
  shows "\<exists>p a. m' = m\<lparr>purchase_order_items := purchase_order_items m @ [p],
                       order_items_audit := order_items_audit m @ [a],
                       order_items_audit_seq := oia_audit_id a\<rparr> \<and>
           poi_item_id p = next_rowid (map poi_item_id (purchase_order_items m)) \<and>
           poi_order_id p = oid \<and> poi_product_id p = None \<and> poi_description p = d \<and>
           poi_quantity p = q \<and> poi_unit_price p = price \<and>
           oia_snapshot a = poi_snapshot p \<and> oia_audit_time a = now \<and>
           oia_audit_id a = next_autoincrement (order_items_audit_seq m) (map oia_audit_id (order_items_audit m))"
proof -
  let ?p = "\<lparr>poi_item_id = next_rowid (map poi_item_id (purchase_order_items m)),
             poi_order_id = oid, poi_product_id = None, poi_description = d,
             poi_quantity = q, poi_unit_price = price\<rparr>"
  let ?a = "\<lparr>oia_audit_id = next_autoincrement (order_items_audit_seq m) (map oia_audit_id (order_items_audit m)),
             oia_item_id = poi_item_id ?p, oia_order_id = oid, oia_product_id = None,
             oia_description = d, oia_quantity = q, oia_unit_price = price, oia_audit_time = now\<rparr>"
  from assms have "m' = m\<lparr>purchase_order_items := purchase_order_items m @ [?p],
                       order_items_audit := order_items_audit m @ [?a],
                       order_items_audit_seq := oia_audit_id ?a\<rparr>"
    by (simp add: insert_purchase_order_items_def trg_order_items_audit_def Let_def split: if_splits)
  moreover have "oia_snapshot ?a = poi_snapshot ?p"
    by (simp add: oia_snapshot_def poi_snapshot_def)
  ultimately show ?thesis
    by (intro exI[of _ ?p] exI[of _ ?a]) simp
qed

lemma insert_purchase_order_items_wf:
  assumes wf: "wf_order_items m" and ins: "insert_purchase_order_items fl now oid d q price m = Inr m'"
  shows "wf_order_items m'"
proof -
  from insert_purchase_order_items_Inr[OF ins] obtain p a where
    m': "m' = m\<lparr>purchase_order_items := purchase_order_items m @ [p],
                       order_items_audit := order_items_audit m @ [a],
                       order_items_audit_seq := oia_audit_id a\<rparr>" and
    pid: "poi_item_id p = next_rowid (map poi_item_id (purchase_order_items m))" and
    snap: "oia_snapshot a = poi_snapshot p" and
    aid: "oia_audit_id a = next_autoincrement (order_items_audit_seq m) (map oia_audit_id (order_items_audit m))"
    by blast
  have gt: "\<forall>x \<in> set (order_items_audit m). oia_audit_id x < oia_audit_id a"
    unfolding aid using next_autoincrement_gt_ids by auto
  have d1: "distinct (map oia_audit_id (order_items_audit m @ [a]))"
    using wf gt by (auto simp: wf_order_items_def)
  have d2: "list_all (\<lambda>x. oia_audit_id x \<le> oia_audit_id a) (order_items_audit m @ [a])"
    using gt by (auto simp: list_all_iff intro: less_imp_le)
  have d3: "distinct (map poi_item_id (purchase_order_items m @ [p]))"
    using wf pid next_rowid_fresh[of "map poi_item_id (purchase_order_items m)"]
    by (auto simp: wf_order_items_def)
  have d4: "map oia_snapshot (order_items_audit m @ [a]) = map poi_snapshot (purchase_order_items m @ [p])"
    using wf snap by (simp add: wf_order_items_def)
  have d5: "set (order_items_backup_ids m) \<subseteq> set (map oia_audit_id (order_items_audit m @ [a]))"
    using wf by (auto simp: wf_order_items_def)
  have d6: "distinct (order_items_backup_ids m)" using wf by (simp add: wf_order_items_def)
  show ?thesis
    unfolding wf_order_items_def m' using d1 d2 d3 d4 d5 d6 by simp
qed

lemma insert_purchase_order_items_ledgered:
  assumes wf: "wf_order_items m" and ins: "insert_purchase_order_items fl now oid d q price m = Inr m'"
  shows "order_items_ledgered m' = order_items_ledgered m"
    and "order_items_backup_ids m' = order_items_backup_ids m"
proof -
  from insert_purchase_order_items_Inr[OF ins] obtain p a where
    m': "m' = m\<lparr>purchase_order_items := purchase_order_items m @ [p],
                       order_items_audit := order_items_audit m @ [a],
                       order_items_audit_seq := oia_audit_id a\<rparr>" and
    aid: "oia_audit_id a = next_autoincrement (order_items_audit_seq m) (map oia_audit_id (order_items_audit m))"
    by blast
  have "oia_audit_id a \<notin> set (map oia_audit_id (order_items_audit m))"
    unfolding aid using next_autoincrement_gt_ids[of _ "map oia_audit_id (order_items_audit m)" "order_items_audit_seq m"]
    by blast
  then have "oia_audit_id a \<notin> set (order_items_backup_ids m)"
    using wf by (auto simp: wf_order_items_def)
  then show "order_items_ledgered m' = order_items_ledgered m"
    by (simp add: order_items_ledgered_def m')
  show "order_items_backup_ids m' = order_items_backup_ids m" by (simp add: m')
qed

lemma insert_purchase_order_items_other:
  assumes "insert_purchase_order_items fl now oid d q price m = Inr m'"
  shows "products_audit m' = products_audit m"
    "products_audit_seq m' = products_audit_seq m"
    "products_backup_ids m' = products_backup_ids m"
    "products m' = products m"
    "purchase_orders m' = purchase_orders m"
    "suppliers m' = suppliers m"
  using insert_purchase_order_items_Inr[OF assms] by auto

lemma insert_suppliers_other:
  assumes "insert_suppliers now n c ph em a ci st co m = Inr m'"
  shows "\<exists>r. m' = m\<lparr>suppliers := suppliers m @ [r]\<rparr>"
  using assms by (auto simp: insert_suppliers_def split: if_splits)

lemma insert_purchase_orders_other:
  assumes "insert_purchase_orders now sid status notes m = Inr m'"
  shows "\<exists>r. m' = m\<lparr>purchase_orders := purchase_orders m @ [r]\<rparr>"
  using assms by (auto simp: insert_purchase_orders_def split: if_splits)

section \<open>The invariants along a pass\<close>

lemma mset_map_filter_split:
  "mset (map f xs) = mset (map f (filter P xs)) + mset (map f (filter (\<lambda>x. \<not> P x) xs))"
  by (induction xs) auto

lemma products_audit_split:
  "mset (map pa_snapshot (products_audit m)) =
     mset (map pa_snapshot (products_ledgered m)) + mset (map pa_snapshot (products_pending m))"
  unfolding products_ledgered_def products_pending_def by (rule mset_map_filter_split)

lemma products_ledgered_after:
  "products_ledgered (m\<lparr>products_backup_ids := products_backup_ids m @ map pa_audit_id (products_pending m)\<rparr>)
     = products_audit m"
  by (auto simp: products_ledgered_def products_pending_def filter_id_conv)

lemma products_pass_wf:
  assumes "wf_products m"
  shows "wf_products (m\<lparr>products_backup_ids := products_backup_ids m @ map pa_audit_id (products_pending m)\<rparr>)"
proof -
  have "distinct (map pa_audit_id (products_pending m))"
    using assms products_pending_ids_distinct by (simp add: wf_products_def)
  moreover have "set (map pa_audit_id (products_pending m)) \<subseteq> set (map pa_audit_id (products_audit m))"
    by (auto simp: products_pending_def)
  ultimately show ?thesis
    using assms products_pending_ids_fresh[of m] by (auto simp: wf_products_def)
qed

lemma order_items_audit_split:
  "mset (map oia_snapshot (order_items_audit m)) =
     mset (map oia_snapshot (order_items_ledgered m)) + mset (map oia_snapshot (order_items_pending m))"
  unfolding order_items_ledgered_def order_items_pending_def by (rule mset_map_filter_split)

lemma order_items_ledgered_after:
  "order_items_ledgered (m\<lparr>order_items_backup_ids := order_items_backup_ids m @ map oia_audit_id (order_items_pending m)\<rparr>)
     = order_items_audit m"
  by (auto simp: order_items_ledgered_def order_items_pending_def filter_id_conv)

lemma order_items_pass_wf:
  assumes "wf_order_items m"
  shows "wf_order_items (m\<lparr>order_items_backup_ids := order_items_backup_ids m @ map oia_audit_id (order_items_pending m)\<rparr>)"
proof -
  have "distinct (map oia_audit_id (order_items_pending m))"
    using assms order_items_pending_ids_distinct by (simp add: wf_order_items_def)
  moreover have "set (map oia_audit_id (order_items_pending m)) \<subseteq> set (map oia_audit_id (order_items_audit m))"
    by (auto simp: order_items_pending_def)
  ultimately show ?thesis
    using assms order_items_pending_ids_fresh[of m] by (auto simp: wf_order_items_def)
qed

lemma products_matched_iff: "products_matched s \<longleftrightarrow> products_covered s \<and> products_no_dup s"
  by (auto simp: products_matched_def products_covered_def products_no_dup_def)

lemma order_items_matched_iff: "order_items_matched s \<longleftrightarrow> order_items_covered s \<and> order_items_no_dup s"
  by (auto simp: order_items_matched_def order_items_covered_def order_items_no_dup_def)

lemma replicate_product_cases:
  fixes f now s
  defines "s' \<equiv> snd (replicate_product_to_backup f now s)"
  obtains (unchanged) "s' = s"
  | (committed) new where "fst (replicate_product_to_backup f now s) = None"
      "main s' = (main s)\<lparr>products_backup_ids :=
          products_backup_ids (main s) @ map pa_audit_id (products_pending (main s))\<rparr>"
      "products_backup (backup s') = products_backup (backup s) @ new"
      "map pb_snapshot new = map pa_snapshot (products_pending (main s))"
  | (half) "f = BackupCommitFails" "backup s' = backup s"
      "main s' = (main s)\<lparr>products_backup_ids :=
          products_backup_ids (main s) @ map pa_audit_id (products_pending (main s))\<rparr>"
proof (cases "replicate_product_to_backup f now s")
  case (Pair r t)
  then have t: "t = s'" by (simp add: s'_def)
  show ?thesis
  proof (cases r)
    case None
    from replicate_product_success[OF Pair[unfolded None]] obtain new seq' where
      "main t = (main s)\<lparr>products_backup_ids :=
          products_backup_ids (main s) @ map pa_audit_id (products_pending (main s))\<rparr>"
      "backup t = (backup s)\<lparr>products_backup := products_backup (backup s) @ new,
                                           products_backup_seq := seq'\<rparr>"
      "map pb_snapshot new = map pa_snapshot (products_pending (main s))"
      by blast
    then show ?thesis using committed[of new] Pair None t by simp
  next
    case (Some e)
    from replicate_product_failure[OF Pair[unfolded Some]] show ?thesis
      using unchanged half t by blast
  qed
qed

lemma replicate_product_covered:
  assumes "commits_together f" "products_covered s"
  shows "products_covered (snd (replicate_product_to_backup f now s))"
proof (cases f now s rule: replicate_product_cases)
  case unchanged
  then show ?thesis using assms by simp
next
  case (committed new)
  have "mset (map pa_snapshot (products_audit (main s))) \<subseteq>#
        mset (map pb_snapshot (products_backup (backup s))) + mset (map pb_snapshot new)"
    unfolding products_audit_split[of "main s"] committed(4)
    using assms(2) by (simp add: products_covered_def)
  then show ?thesis
    unfolding products_covered_def committed(2,3) products_ledgered_after by simp
next
  case half
  then show ?thesis using assms by (simp add: commits_together_def)
qed

lemma replicate_product_no_dup:
  assumes "products_no_dup s"
  shows "products_no_dup (snd (replicate_product_to_backup f now s))"
proof (cases f now s rule: replicate_product_cases)
  case unchanged
  then show ?thesis using assms by simp
next
  case (committed new)
  have "mset (map pb_snapshot (products_backup (backup s))) + mset (map pb_snapshot new) \<subseteq>#
        mset (map pa_snapshot (products_audit (main s)))"
    unfolding products_audit_split[of "main s"] committed(4)
    using assms by (simp add: products_no_dup_def)
  then show ?thesis
    unfolding products_no_dup_def committed(2,3) products_ledgered_after by simp
next
  case half
  have "mset (map pa_snapshot (products_ledgered (main s))) \<subseteq>#
        mset (map pa_snapshot (products_audit (main s)))"
    unfolding products_audit_split[of "main s"] by simp
  then have "mset (map pb_snapshot (products_backup (backup s))) \<subseteq>#
        mset (map pa_snapshot (products_audit (main s)))"
    using assms unfolding products_no_dup_def by (rule subset_mset.order_trans[rotated])
  then show ?thesis
    unfolding products_no_dup_def half(2,3) products_ledgered_after by simp
qed

lemma replicate_product_wf:
  assumes "wf_products (main s)"
  shows "wf_products (main (snd (replicate_product_to_backup f now s)))"
proof (cases f now s rule: replicate_product_cases)
  case unchanged
  then show ?thesis using assms by simp
next
  case (committed new)
  then show ?thesis using products_pass_wf[OF assms] by simp
next
  case half
  then show ?thesis using products_pass_wf[OF assms] by simp
qed

lemma replicate_product_other:
  fixes f now s
  defines "s' \<equiv> snd (replicate_product_to_backup f now s)"
  shows "wf_order_items (main s') = wf_order_items (main s)"
    and "order_items_covered s' = order_items_covered s"
    and "order_items_no_dup s' = order_items_no_dup s"
proof -
  from replicate_product_frame[of f now s] obtain ids rows seq' where
    "s' = \<lparr>main = (main s)\<lparr>products_backup_ids := products_backup_ids (main s) @ ids\<rparr>,
      backup = (backup s)\<lparr>products_backup := products_backup (backup s) @ rows,
                           products_backup_seq := seq'\<rparr>\<rparr>"
    unfolding s'_def by blast
  then show "wf_order_items (main s') = wf_order_items (main s)"
    and "order_items_covered s' = order_items_covered s"
    and "order_items_no_dup s' = order_items_no_dup s"
    by (simp_all add: wf_order_items_def order_items_covered_def order_items_no_dup_def
        order_items_ledgered_def)
qed

lemma replicate_order_item_cases:
  fixes f now s
  defines "s' \<equiv> snd (replicate_order_item_to_backup f now s)"
  obtains (unchanged) "s' = s"
  | (committed) new where "fst (replicate_order_item_to_backup f now s) = None"
      "main s' = (main s)\<lparr>order_items_backup_ids :=
          order_items_backup_ids (main s) @ map oia_audit_id (order_items_pending (main s))\<rparr>"
      "order_items_backup (backup s') = order_items_backup (backup s) @ new"
      "map oib_snapshot new = map oia_snapshot (order_items_pending (main s))"
  | (half) "f = BackupCommitFails" "backup s' = backup s"
      "main s' = (main s)\<lparr>order_items_backup_ids :=
          order_items_backup_ids (main s) @ map oia_audit_id (order_items_pending (main s))\<rparr>"
proof (cases "replicate_order_item_to_backup f now s")
  case (Pair r t)
  then have t: "t = s'" by (simp add: s'_def)
  show ?thesis
  proof (cases r)
    case None
    from replicate_order_item_success[OF Pair[unfolded None]] obtain new seq' where
      "main t = (main s)\<lparr>order_items_backup_ids :=
          order_items_backup_ids (main s) @ map oia_audit_id (order_items_pending (main s))\<rparr>"
      "backup t = (backup s)\<lparr>order_items_backup := order_items_backup (backup s) @ new,
                                           order_items_backup_seq := seq'\<rparr>"
      "map oib_snapshot new = map oia_snapshot (order_items_pending (main s))"
      by blast
    then show ?thesis using committed[of new] Pair None t by simp
  next
    case (Some e)
    from replicate_order_item_failure[OF Pair[unfolded Some]] show ?thesis
      using unchanged half t by blast
  qed
qed

lemma replicate_order_item_covered:
  assumes "commits_together f" "order_items_covered s"
  shows "order_items_covered (snd (replicate_order_item_to_backup f now s))"
proof (cases f now s rule: replicate_order_item_cases)
  case unchanged
  then show ?thesis using assms by simp
next
  case (committed new)
  have "mset (map oia_snapshot (order_items_audit (main s))) \<subseteq>#
        mset (map oib_snapshot (order_items_backup (backup s))) + mset (map oib_snapshot new)"
    unfolding order_items_audit_split[of "main s"] committed(4)
    using assms(2) by (simp add: order_items_covered_def)
  then show ?thesis
    unfolding order_items_covered_def committed(2,3) order_items_ledgered_after by simp
next
  case half
  then show ?thesis using assms by (simp add: commits_together_def)
qed

lemma replicate_order_item_no_dup:
  assumes "order_items_no_dup s"
  shows "order_items_no_dup (snd (replicate_order_item_to_backup f now s))"
proof (cases f now s rule: replicate_order_item_cases)
  case unchanged
  then show ?thesis using assms by simp
next
  case (committed new)
  have "mset (map oib_snapshot (order_items_backup (backup s))) + mset (map oib_snapshot new) \<subseteq>#
        mset (map oia_snapshot (order_items_audit (main s)))"
    unfolding order_items_audit_split[of "main s"] committed(4)
    using assms by (simp add: order_items_no_dup_def)
  then show ?thesis
    unfolding order_items_no_dup_def committed(2,3) order_items_ledgered_after by simp
next
  case half
  have "mset (map oia_snapshot (order_items_ledgered (main s))) \<subseteq>#
        mset (map oia_snapshot (order_items_audit (main s)))"
    unfolding order_items_audit_split[of "main s"] by simp
  then have "mset (map oib_snapshot (order_items_backup (backup s))) \<subseteq>#
        mset (map oia_snapshot (order_items_audit (main s)))"
    using assms unfolding order_items_no_dup_def by (rule subset_mset.order_trans[rotated])
  then show ?thesis
    unfolding order_items_no_dup_def half(2,3) order_items_ledgered_after by simp
qed

lemma replicate_order_item_wf:
  assumes "wf_order_items (main s)"
  shows "wf_order_items (main (snd (replicate_order_item_to_backup f now s)))"
proof (cases f now s rule: replicate_order_item_cases)
  case unchanged
  then show ?thesis using assms by simp
next
  case (committed new)
  then show ?thesis using order_items_pass_wf[OF assms] by simp
next
  case half
  then show ?thesis using order_items_pass_wf[OF assms] by simp
qed

lemma replicate_order_item_other:
  fixes f now s
  defines "s' \<equiv> snd (replicate_order_item_to_backup f now s)"
  shows "wf_products (main s') = wf_products (main s)"
    and "products_covered s' = products_covered s"
    and "products_no_dup s' = products_no_dup s"
proof -
  from replicate_order_item_frame[of f now s] obtain ids rows seq' where
    "s' = \<lparr>main = (main s)\<lparr>order_items_backup_ids := order_items_backup_ids (main s) @ ids\<rparr>,
      backup = (backup s)\<lparr>order_items_backup := order_items_backup (backup s) @ rows,
                           order_items_backup_seq := seq'\<rparr>\<rparr>"
    unfolding s'_def by blast
  then show "wf_products (main s') = wf_products (main s)"
    and "products_covered s' = products_covered s"
    and "products_no_dup s' = products_no_dup s"
    by (simp_all add: wf_products_def products_covered_def products_no_dup_def
        products_ledgered_def)
qed

section \<open>The invariants along the request handlers\<close>

lemma stores_consistent_iff: "stores_consistent s \<longleftrightarrow> stores_covered s \<and> stores_no_dup s"
  by (auto simp: stores_consistent_def stores_covered_def stores_no_dup_def
      products_matched_iff order_items_matched_iff)

lemma replicate_product_stores:
  "wf_main (main s) \<Longrightarrow> wf_main (main (snd (replicate_product_to_backup f now s)))"
  "commits_together f \<Longrightarrow> stores_covered s \<Longrightarrow> stores_covered (snd (replicate_product_to_backup f now s))"
  "stores_no_dup s \<Longrightarrow> stores_no_dup (snd (replicate_product_to_backup f now s))"
  using replicate_product_wf[of s f now] replicate_product_covered[of f s now]
    replicate_product_no_dup[of s f now] replicate_product_other[of f now s]
  by (auto simp: wf_main_def stores_covered_def stores_no_dup_def)

lemma replicate_order_item_stores:
  "wf_main (main s) \<Longrightarrow> wf_main (main (snd (replicate_order_item_to_backup f now s)))"
  "commits_together f \<Longrightarrow> stores_covered s \<Longrightarrow> stores_covered (snd (replicate_order_item_to_backup f now s))"
  "stores_no_dup s \<Longrightarrow> stores_no_dup (snd (replicate_order_item_to_backup f now s))"
  using replicate_order_item_wf[of s f now] replicate_order_item_covered[of f s now]
    replicate_order_item_no_dup[of s f now] replicate_order_item_other[of f now s]
  by (auto simp: wf_main_def stores_covered_def stores_no_dup_def)

lemma insert_products_stores:
  assumes ins: "insert_products fl now n sku price (main s) = Inr m'"
  shows "wf_main (main s) \<Longrightarrow> wf_main m'"
    and "stores_covered s \<Longrightarrow> stores_covered (s\<lparr>main := m'\<rparr>)"
    and "stores_no_dup s \<Longrightarrow> stores_no_dup (s\<lparr>main := m'\<rparr>)"
proof -
  have other: "wf_order_items m' = wf_order_items (main s)"
    "order_items_ledgered m' = order_items_ledgered (main s)"
    using insert_products_other[OF ins] by (simp_all add: wf_order_items_def order_items_ledgered_def)
  show wf: "wf_main (main s) \<Longrightarrow> wf_main m'"
    using insert_products_wf[OF _ ins] other by (simp add: wf_main_def)
  show "stores_covered s \<Longrightarrow> stores_covered (s\<lparr>main := m'\<rparr>)"
    using wf insert_products_ledgered(1)[OF _ ins] other
    by (simp add: stores_covered_def products_covered_def order_items_covered_def wf_main_def)
  show "stores_no_dup s \<Longrightarrow> stores_no_dup (s\<lparr>main := m'\<rparr>)"
    using wf insert_products_ledgered(1)[OF _ ins] other
    by (simp add: stores_no_dup_def products_no_dup_def order_items_no_dup_def wf_main_def)
qed

lemma insert_purchase_order_items_stores:
  assumes ins: "insert_purchase_order_items fl now oid d q price (main s) = Inr m'"
  shows "wf_main (main s) \<Longrightarrow> wf_main m'"
    and "stores_covered s \<Longrightarrow> stores_covered (s\<lparr>main := m'\<rparr>)"
    and "stores_no_dup s \<Longrightarrow> stores_no_dup (s\<lparr>main := m'\<rparr>)"
proof -
  have other: "wf_products m' = wf_products (main s)"
    "products_ledgered m' = products_ledgered (main s)"
    using insert_purchase_order_items_other[OF ins] by (simp_all add: wf_products_def products_ledgered_def)
  show wf: "wf_main (main s) \<Longrightarrow> wf_main m'"
    using insert_purchase_order_items_wf[OF _ ins] other by (simp add: wf_main_def)
  show "stores_covered s \<Longrightarrow> stores_covered (s\<lparr>main := m'\<rparr>)"
    using wf insert_purchase_order_items_ledgered(1)[OF _ ins] other
    by (simp add: stores_covered_def products_covered_def order_items_covered_def wf_main_def)
  show "stores_no_dup s \<Longrightarrow> stores_no_dup (s\<lparr>main := m'\<rparr>)"
    using wf insert_purchase_order_items_ledgered(1)[OF _ ins] other
    by (simp add: stores_no_dup_def products_no_dup_def order_items_no_dup_def wf_main_def)
qed

text \<open>A change of \<open>suppliers\<close> or \<open>purchase_orders\<close> alone touches none of the invariants.\<close>

lemma suppliers_update_stores:
  "wf_main ((main s)\<lparr>suppliers := xs\<rparr>) = wf_main (main s)"
  "stores_covered (s\<lparr>main := (main s)\<lparr>suppliers := xs\<rparr>\<rparr>) = stores_covered s"
  "stores_no_dup (s\<lparr>main := (main s)\<lparr>suppliers := xs\<rparr>\<rparr>) = stores_no_dup s"
  by (simp_all add: wf_main_def wf_products_def wf_order_items_def stores_covered_def stores_no_dup_def
      products_covered_def order_items_covered_def products_no_dup_def order_items_no_dup_def
      products_ledgered_def order_items_ledgered_def)

lemma purchase_orders_update_stores:
  "wf_main ((main s)\<lparr>purchase_orders := ys\<rparr>) = wf_main (main s)"
  "stores_covered (s\<lparr>main := (main s)\<lparr>purchase_orders := ys\<rparr>\<rparr>) = stores_covered s"
  "stores_no_dup (s\<lparr>main := (main s)\<lparr>purchase_orders := ys\<rparr>\<rparr>) = stores_no_dup s"
  by (simp_all add: wf_main_def wf_products_def wf_order_items_def stores_covered_def stores_no_dup_def
      products_covered_def order_items_covered_def products_no_dup_def order_items_no_dup_def
      products_ledgered_def order_items_ledgered_def)

lemma dashboard_snd:
  "snd (dashboard e s) =
     (if fst (replicate_product_to_backup (product_fault e) (clock e) s) = None
      then snd (replicate_order_item_to_backup (order_item_fault e) (clock e)
                 (snd (replicate_product_to_backup (product_fault e) (clock e) s)))
      else snd (replicate_product_to_backup (product_fault e) (clock e) s))"
  by (auto simp: dashboard_def split: prod.splits option.splits)

lemma dashboard_stores:
  "env_commits_together e \<Longrightarrow> stores_covered s \<Longrightarrow> stores_covered (snd (dashboard e s))"
  "stores_no_dup s \<Longrightarrow> stores_no_dup (snd (dashboard e s))"
  by (simp_all add: dashboard_snd env_commits_together_def replicate_product_stores
      replicate_order_item_stores)

lemma add_product_stores:
  "env_commits_together e \<Longrightarrow> stores_covered s \<Longrightarrow> stores_covered (snd (add_product e n sku price s))"
  "stores_no_dup s \<Longrightarrow> stores_no_dup (snd (add_product e n sku price s))"
  by (auto simp: add_product_def env_commits_together_def replicate_product_stores
      insert_products_stores split: sum.splits)

lemma add_item_stores:
  "env_commits_together e \<Longrightarrow> stores_covered s \<Longrightarrow> stores_covered (snd (add_item e oid d q price s))"
  "stores_no_dup s \<Longrightarrow> stores_no_dup (snd (add_item e oid d q price s))"
  by (auto simp: add_item_def env_commits_together_def replicate_order_item_stores
      insert_purchase_order_items_stores split: sum.splits)

lemma add_supplier_stores:
  "stores_covered s \<Longrightarrow> stores_covered (snd (add_supplier e n c ph em a ci st co s))"
  "stores_no_dup s \<Longrightarrow> stores_no_dup (snd (add_supplier e n c ph em a ci st co s))"
  by (auto simp: add_supplier_def suppliers_update_stores purchase_orders_update_stores dest!: insert_suppliers_other split: sum.splits)

lemma add_order_stores:
  "stores_covered s \<Longrightarrow> stores_covered (snd (add_order e sid notes s))"
  "stores_no_dup s \<Longrightarrow> stores_no_dup (snd (add_order e sid notes s))"
  by (auto simp: add_order_def suppliers_update_stores purchase_orders_update_stores dest!: insert_purchase_orders_other split: sum.splits)

lemma supplier_deactivate_stores:
  "stores_covered s \<Longrightarrow> stores_covered (snd (supplier_deactivate sid s))"
  "stores_no_dup s \<Longrightarrow> stores_no_dup (snd (supplier_deactivate sid s))"
  by (simp_all add: supplier_deactivate_def suppliers_update_stores purchase_orders_update_stores)

section \<open>The invariants along \<open>seed_demo\<close>\<close>

lemma seed_demo_dashboard:
  "seed_demo e s =
     (case seed_inserts e (seed_wipe (main s)) of
        Inl err \<Rightarrow> (Some err, s\<lparr>main := seed_wipe (main s)\<rparr>)
      | Inr m1 \<Rightarrow> dashboard e (s\<lparr>main := m1\<rparr>))"
  by (simp add: seed_demo_def dashboard_def Let_def split: sum.splits)

lemma executemany_invariant:
  assumes "\<And>i p m m'. Q m \<Longrightarrow> stmt i p m = Inr m' \<Longrightarrow> Q m'"
    and "Q m" and "executemany stmt i ps m = Inr m'"
  shows "Q m'"
  using assms(2,3)
proof (induction ps arbitrary: i m)
  case Nil
  then show ?case by simp
next
  case (Cons p ps)
  from Cons.prems(2) obtain m1 where
    st: "stmt i p m = Inr m1" and rest: "executemany stmt (Suc i) ps m1 = Inr m'"
    by (auto split: sum.splits)
  have "Q m1" using assms(1)[OF Cons.prems(1) st] .
  then show ?case using rest by (rule Cons.IH)
qed

lemma unledgered_seed_wipe: "unledgered (seed_wipe m)"
  by (simp add: unledgered_def seed_wipe_def wf_main_def wf_products_def wf_order_items_def)

lemma unledgered_insert_suppliers:
  "unledgered m \<Longrightarrow> insert_suppliers now n c ph em a ci st co m = Inr m' \<Longrightarrow> unledgered m'"
  by (auto simp: unledgered_def wf_main_def wf_products_def wf_order_items_def
      dest!: insert_suppliers_other)

lemma unledgered_insert_purchase_orders:
  "unledgered m \<Longrightarrow> insert_purchase_orders now sid status notes m = Inr m' \<Longrightarrow> unledgered m'"
  by (auto simp: unledgered_def wf_main_def wf_products_def wf_order_items_def
      dest!: insert_purchase_orders_other)

lemma unledgered_insert_products:
  assumes "unledgered m" "insert_products fl now n sku price m = Inr m'"
  shows "unledgered m'"
proof -
  have "wf_order_items m' = wf_order_items m"
    using insert_products_other[OF assms(2)] by (simp add: wf_order_items_def)
  then show ?thesis
    using assms(1) insert_products_wf[OF _ assms(2)] insert_products_ledgered(2)[OF _ assms(2)]
      insert_products_other(3)[OF assms(2)]
    by (simp add: unledgered_def wf_main_def)
qed

lemma unledgered_insert_purchase_order_items:
  assumes "unledgered m" "insert_purchase_order_items fl now oid d q price m = Inr m'"
  shows "unledgered m'"
proof -
  have "wf_products m' = wf_products m"
    using insert_purchase_order_items_other[OF assms(2)] by (simp add: wf_products_def)
  then show ?thesis
    using assms(1) insert_purchase_order_items_wf[OF _ assms(2)]
      insert_purchase_order_items_ledgered(2)[OF _ assms(2)]
      insert_purchase_order_items_other(3)[OF assms(2)]
    by (simp add: unledgered_def wf_main_def)
qed

lemma unledgered_seed_inserts:
  assumes "unledgered m0" "seed_inserts e m0 = Inr m'"
  shows "unledgered m'"
proof -
  from assms(2) obtain m1 m2 m3 where
    s1: "executemany (\<lambda>i (n, c, p, em, a, ci, st, co).
             insert_suppliers (clock e i) n (Some c) (Some p) (Some em) (Some a) (Some ci) (Some st) (Some co))
             0 suppliers_demo m0 = Inr m1" and
    s2: "executemany (\<lambda>i (n, sku, price).
             insert_products (capture_fault e) (clock e i) n (Some sku) price)
             0 products_demo m1 = Inr m2" and
    s3: "insert_purchase_orders (clock e 0) 1 ''PLACED'' (Some ''Urgent requirement for IoT Lab.'') m2 = Inr m3" and
    s4: "executemany (\<lambda>i (oid, d, q, p).
               insert_purchase_order_items (capture_fault e) (clock e i) oid d q p)
               0 (order_items_demo (po_order_id (last (purchase_orders m3)))) m3 = Inr m'"
    by (auto simp: seed_inserts_def Let_def split: sum.splits)
  have u1: "unledgered m1"
    by (rule executemany_invariant[where Q = unledgered, OF _ assms(1) s1])
       (auto intro: unledgered_insert_suppliers)
  have u2: "unledgered m2"
    by (rule executemany_invariant[where Q = unledgered, OF _ u1 s2])
       (auto intro: unledgered_insert_products)
  have u3: "unledgered m3"
    by (rule unledgered_insert_purchase_orders[OF u2 s3])
  show ?thesis
    by (rule executemany_invariant[where Q = unledgered, OF _ u3 s4])
       (auto intro: unledgered_insert_purchase_order_items)
qed

lemma unledgered_covered: "unledgered m \<Longrightarrow> stores_covered (s\<lparr>main := m\<rparr>)"
  by (simp add: unledgered_def stores_covered_def products_covered_def order_items_covered_def
      products_ledgered_def order_items_ledgered_def)

lemma seed_demo_stores:
  assumes "env_commits_together e"
  shows "stores_covered (snd (seed_demo e s))"
proof (cases "seed_inserts e (seed_wipe (main s))")
  case (Inl err)
  then show ?thesis
    using unledgered_covered[OF unledgered_seed_wipe] by (simp add: seed_demo_dashboard)
next
  case (Inr m1)
  have "unledgered m1" using unledgered_seed_inserts[OF unledgered_seed_wipe Inr] .
  then have "stores_covered (s\<lparr>main := m1\<rparr>)" by (rule unledgered_covered)
  then show ?thesis
    using Inr dashboard_stores(1)[OF assms] by (simp add: seed_demo_dashboard)
qed

section \<open>The invariants along a history\<close>

lemma handle_covered:
  assumes "env_commits_together e" "stores_covered s"
  shows "stores_covered (snd (handle e r s))"
  using assms
  by (cases r)
     (simp_all add: seed_demo_stores dashboard_stores add_supplier_stores supplier_deactivate_stores
        add_product_stores add_order_stores add_item_stores)

lemma handle_no_dup:
  assumes "r \<noteq> SeedDemo" "stores_no_dup s"
  shows "stores_no_dup (snd (handle e r s))"
  using assms
  by (cases r)
     (simp_all add: dashboard_stores add_supplier_stores supplier_deactivate_stores
        add_product_stores add_order_stores add_item_stores)

lemma run_covered:
  "list_all (\<lambda>(e, r). env_commits_together e) evs \<Longrightarrow> stores_covered s \<Longrightarrow>
   stores_covered (run evs s)"
proof (induction evs arbitrary: s)
  case Nil
  then show ?case by simp
next
  case (Cons ev evs)
  obtain e r where ev: "ev = (e, r)" by (cases ev)
  have "stores_covered (snd (handle e r s))"
    using Cons.prems ev by (auto intro: handle_covered)
  then show ?case using Cons.IH Cons.prems ev by simp
qed

lemma run_no_dup:
  "list_all (\<lambda>(e, r). r \<noteq> SeedDemo) evs \<Longrightarrow> stores_no_dup s \<Longrightarrow>
   stores_no_dup (run evs s)"
proof (induction evs arbitrary: s)
  case Nil
  then show ?case by simp
next
  case (Cons ev evs)
  obtain e r where ev: "ev = (e, r)" by (cases ev)
  have "stores_no_dup (snd (handle e r s))"
    using Cons.prems ev by (auto intro: handle_no_dup)
  then show ?case using Cons.IH Cons.prems ev by simp
qed

lemma init_db_consistent: "stores_consistent init_db"
  by (simp add: stores_consistent_def wf_main_def wf_products_def wf_order_items_def
      products_matched_def order_items_matched_def products_ledgered_def order_items_ledgered_def
      init_db_def init_main_def init_backup_def)






section \<open>What \<open>seed_demo\<close> does to the correspondence\<close>


lemma unledgered_products:
  assumes "unledgered m"
  shows "products_ledgered m = []" "products_pending m = products_audit m"
  using assms by (simp_all add: unledgered_def products_ledgered_def products_pending_def)





section \<open>An interrupted pass and the pass after it\<close>

lemma replicate_product_recovery:
  fixes f now now' s
  defines "s1 \<equiv> snd (replicate_product_to_backup f now s)"
  defines "s2 \<equiv> snd (replicate_product_to_backup NoFault now' s1)"
  assumes c: "stores_consistent s"
  shows "fst (replicate_product_to_backup NoFault now' s1) = None"
    and "stores_no_dup s2"
    and "products_pending (main s2) = []"
    and "commits_together f \<Longrightarrow> stores_consistent s2"
proof -
  have cov: "stores_covered s" and nd: "stores_no_dup s"
    using c by (simp_all add: stores_consistent_iff)
  have wf1: "wf_main (main s1)"
    unfolding s1_def using nd by (intro replicate_product_stores(1)) (simp add: stores_no_dup_def)
  then show ok: "fst (replicate_product_to_backup NoFault now' s1) = None"
    by (intro replicate_product_NoFault) (simp add: wf_main_def wf_products_def)
  have nd1: "stores_no_dup s1" unfolding s1_def using nd by (rule replicate_product_stores(3))
  show nd2: "stores_no_dup s2" unfolding s2_def using nd1 by (rule replicate_product_stores(3))
  have "replicate_product_to_backup NoFault now' s1 = (None, s2)"
    using ok by (simp add: s2_def prod_eq_iff)
  from replicate_product_success(1)[OF this] show "products_pending (main s2) = []"
    by (simp add: products_pending_after)
  assume f: "commits_together f"
  have "stores_covered s1" unfolding s1_def using f cov by (rule replicate_product_stores(2))
  then have "stores_covered s2"
    unfolding s2_def by (intro replicate_product_stores(2)) (simp_all add: commits_together_def)
  then show "stores_consistent s2" using nd2 by (simp add: stores_consistent_iff)
qed

lemma replicate_order_item_recovery:
  fixes f now now' s
  defines "s1 \<equiv> snd (replicate_order_item_to_backup f now s)"
  defines "s2 \<equiv> snd (replicate_order_item_to_backup NoFault now' s1)"
  assumes c: "stores_consistent s"
  shows "fst (replicate_order_item_to_backup NoFault now' s1) = None"
    and "stores_no_dup s2"
    and "order_items_pending (main s2) = []"
    and "commits_together f \<Longrightarrow> stores_consistent s2"
proof -
  have cov: "stores_covered s" and nd: "stores_no_dup s"
    using c by (simp_all add: stores_consistent_iff)
  have wf1: "wf_main (main s1)"
    unfolding s1_def using nd by (intro replicate_order_item_stores(1)) (simp add: stores_no_dup_def)
  then show ok: "fst (replicate_order_item_to_backup NoFault now' s1) = None"
    by (intro replicate_order_item_NoFault) (simp add: wf_main_def wf_order_items_def)
  have nd1: "stores_no_dup s1" unfolding s1_def using nd by (rule replicate_order_item_stores(3))
  show nd2: "stores_no_dup s2" unfolding s2_def using nd1 by (rule replicate_order_item_stores(3))
  have "replicate_order_item_to_backup NoFault now' s1 = (None, s2)"
    using ok by (simp add: s2_def prod_eq_iff)
  from replicate_order_item_success(1)[OF this] show "order_items_pending (main s2) = []"
    by (simp add: order_items_pending_after)
  assume f: "commits_together f"
  have "stores_covered s1" unfolding s1_def using f cov by (rule replicate_order_item_stores(2))
  then have "stores_covered s2"
    unfolding s2_def by (intro replicate_order_item_stores(2)) (simp_all add: commits_together_def)
  then show "stores_consistent s2" using nd2 by (simp add: stores_consistent_iff)
qed


lemma pending_db_consistent: "stores_consistent pending_db"
proof -
  have h: "list_all (\<lambda>(e, r). env_commits_together e) pending_history"
    "list_all (\<lambda>(e, r). r \<noteq> SeedDemo) pending_history"
    by (simp_all add: pending_history_def env_commits_together_def commits_together_def env_no_pass_def)
  show ?thesis
    using run_covered[OF h(1), of init_db] run_no_dup[OF h(2), of init_db] init_db_consistent
    by (simp add: stores_consistent_iff pending_db_reachable)
qed

text \<open>
  C7 fails as stated. In \<open>pending_db\<close> the product pass is stopped between
  \<open>conn.commit()\<close> and \<open>bconn.commit()\<close>: the ledger entry is on disk, the backup
  record is not. The next pass returns normally and replicates nothing, and the audit
  row has no backup record: it is lost.
\<close>

theorem stop_between_commits_loses_row:
  "map pa_audit_id (products_audit (main pending_db)) = [1] \<and>
   replicate_product_to_backup BackupCommitFails (clock (env_at 5)) pending_db =
     (Some Interrupted, pending_db\<lparr>main := pending_main\<lparr>products_backup_ids := [1]\<rparr>\<rparr>) \<and>
   replicate_product_to_backup NoFault (clock (env_at 7))
       (pending_db\<lparr>main := pending_main\<lparr>products_backup_ids := [1]\<rparr>\<rparr>) =
     (None, pending_db\<lparr>main := pending_main\<lparr>products_backup_ids := [1]\<rparr>\<rparr>) \<and>
   products_backup (backup (pending_db\<lparr>main := pending_main\<lparr>products_backup_ids := [1]\<rparr>\<rparr>)) = []"
  by (simp add: eval_defs)

section \<open>The order of the backup listing\<close>










section \<open>Who writes the ledgers and the backup store\<close>

lemma ledgers_grow_refl: "ledgers_grow s s"
  by (simp add: ledgers_grow_def)

lemma backup_grows_refl: "backup_grows s s"
  by (simp add: backup_grows_def)

lemma ledgers_grow_trans: "ledgers_grow s t \<Longrightarrow> ledgers_grow t u \<Longrightarrow> ledgers_grow s u"
  by (auto simp: ledgers_grow_def intro: prefix_order.order_trans)

lemma backup_grows_trans: "backup_grows s t \<Longrightarrow> backup_grows t u \<Longrightarrow> backup_grows s u"
  by (auto simp: backup_grows_def intro: prefix_order.order_trans)

lemma replicate_product_grows:
  "ledgers_grow s (snd (replicate_product_to_backup f now s))"
  "backup_grows s (snd (replicate_product_to_backup f now s))"
proof -
  from replicate_product_frame[of f now s] obtain ids rows seq' where
    "snd (replicate_product_to_backup f now s) =
     \<lparr>main = (main s)\<lparr>products_backup_ids := products_backup_ids (main s) @ ids\<rparr>,
      backup = (backup s)\<lparr>products_backup := products_backup (backup s) @ rows,
                           products_backup_seq := seq'\<rparr>\<rparr>"
    by blast
  then show "ledgers_grow s (snd (replicate_product_to_backup f now s))"
    and "backup_grows s (snd (replicate_product_to_backup f now s))"
    by (simp_all add: ledgers_grow_def backup_grows_def)
qed

lemma replicate_order_item_grows:
  "ledgers_grow s (snd (replicate_order_item_to_backup f now s))"
  "backup_grows s (snd (replicate_order_item_to_backup f now s))"
proof -
  from replicate_order_item_frame[of f now s] obtain ids rows seq' where
    "snd (replicate_order_item_to_backup f now s) =
     \<lparr>main = (main s)\<lparr>order_items_backup_ids := order_items_backup_ids (main s) @ ids\<rparr>,
      backup = (backup s)\<lparr>order_items_backup := order_items_backup (backup s) @ rows,
                           order_items_backup_seq := seq'\<rparr>\<rparr>"
    by blast
  then show "ledgers_grow s (snd (replicate_order_item_to_backup f now s))"
    and "backup_grows s (snd (replicate_order_item_to_backup f now s))"
    by (simp_all add: ledgers_grow_def backup_grows_def)
qed

lemma dashboard_grows:
  "ledgers_grow s (snd (dashboard e s))" "backup_grows s (snd (dashboard e s))"
  using replicate_product_grows[of s "product_fault e" "clock e"]
    replicate_order_item_grows[of "snd (replicate_product_to_backup (product_fault e) (clock e) s)"
      "order_item_fault e" "clock e"]
  by (auto simp: dashboard_snd intro: ledgers_grow_trans backup_grows_trans)

lemma main_update_grows:
  assumes "products_backup_ids m' = products_backup_ids (main s)"
    "order_items_backup_ids m' = order_items_backup_ids (main s)"
  shows "ledgers_grow s (s\<lparr>main := m'\<rparr>)" "backup_grows s (s\<lparr>main := m'\<rparr>)"
  using assms by (simp_all add: ledgers_grow_def backup_grows_def)

lemma insert_products_ledgers:
  assumes "insert_products fl now n sku price m = Inr m'"
  shows "products_backup_ids m' = products_backup_ids m"
    "order_items_backup_ids m' = order_items_backup_ids m"
  using insert_products_Inr[OF assms] by auto

lemma insert_purchase_order_items_ledgers:
  assumes "insert_purchase_order_items fl now oid d q price m = Inr m'"
  shows "products_backup_ids m' = products_backup_ids m"
    "order_items_backup_ids m' = order_items_backup_ids m"
  using insert_purchase_order_items_Inr[OF assms] by auto

lemma add_product_grows:
  "ledgers_grow s (snd (add_product e n sku price s))"
  "backup_grows s (snd (add_product e n sku price s))"
proof -
  show "ledgers_grow s (snd (add_product e n sku price s))"
  proof (cases "insert_products (capture_fault e) (clock e 0) n (Some sku) price (main s)")
    case (Inl a)
    then show ?thesis by (simp add: add_product_def ledgers_grow_refl)
  next
    case (Inr m')
    show ?thesis
      using main_update_grows(1)[OF insert_products_ledgers[OF Inr]]
        replicate_product_grows(1)[of "s\<lparr>main := m'\<rparr>" "product_fault e" "clock e"] Inr
      by (auto simp: add_product_def intro: ledgers_grow_trans)
  qed
  show "backup_grows s (snd (add_product e n sku price s))"
  proof (cases "insert_products (capture_fault e) (clock e 0) n (Some sku) price (main s)")
    case (Inl a)
    then show ?thesis by (simp add: add_product_def backup_grows_refl)
  next
    case (Inr m')
    show ?thesis
      using main_update_grows(2)[OF insert_products_ledgers[OF Inr]]
        replicate_product_grows(2)[of "s\<lparr>main := m'\<rparr>" "product_fault e" "clock e"] Inr
      by (auto simp: add_product_def intro: backup_grows_trans)
  qed
qed

lemma add_item_grows:
  "ledgers_grow s (snd (add_item e oid d q price s))"
  "backup_grows s (snd (add_item e oid d q price s))"
proof -
  show "ledgers_grow s (snd (add_item e oid d q price s))"
  proof (cases "insert_purchase_order_items (capture_fault e) (clock e 0) oid d q price (main s)")
    case (Inl a)
    then show ?thesis by (simp add: add_item_def ledgers_grow_refl)
  next
    case (Inr m')
    show ?thesis
      using main_update_grows(1)[OF insert_purchase_order_items_ledgers[OF Inr]]
        replicate_order_item_grows(1)[of "s\<lparr>main := m'\<rparr>" "order_item_fault e" "clock e"] Inr
      by (auto simp: add_item_def intro: ledgers_grow_trans)
  qed
  show "backup_grows s (snd (add_item e oid d q price s))"
  proof (cases "insert_purchase_order_items (capture_fault e) (clock e 0) oid d q price (main s)")
    case (Inl a)
    then show ?thesis by (simp add: add_item_def backup_grows_refl)
  next
    case (Inr m')
    show ?thesis
      using main_update_grows(2)[OF insert_purchase_order_items_ledgers[OF Inr]]
        replicate_order_item_grows(2)[of "s\<lparr>main := m'\<rparr>" "order_item_fault e" "clock e"] Inr
      by (auto simp: add_item_def intro: backup_grows_trans)
  qed
qed

lemma no_replication_same:
  assumes "\<not> runs_replication r"
  shows "products_backup_ids (main (snd (handle e r s))) = products_backup_ids (main s)"
    and "order_items_backup_ids (main (snd (handle e r s))) = order_items_backup_ids (main s)"
    and "backup (snd (handle e r s)) = backup s"
  using assms
  by (cases r;
      auto simp: add_supplier_def add_order_def supplier_deactivate_def
        dest!: insert_suppliers_other insert_purchase_orders_other split: sum.splits)+

lemma seed_demo_grows:
  "ledgers_grow (s\<lparr>main := seed_wipe (main s)\<rparr>) (snd (seed_demo e s))"
  "backup_grows s (snd (seed_demo e s))"
proof -
  show "ledgers_grow (s\<lparr>main := seed_wipe (main s)\<rparr>) (snd (seed_demo e s))"
  proof (cases "seed_inserts e (seed_wipe (main s))")
    case (Inl a)
    then show ?thesis by (simp add: seed_demo_dashboard ledgers_grow_refl)
  next
    case (Inr m1)
    have "unledgered m1" using unledgered_seed_inserts[OF unledgered_seed_wipe Inr] .
    then have "ledgers_grow (s\<lparr>main := seed_wipe (main s)\<rparr>) (s\<lparr>main := m1\<rparr>)"
      by (simp add: unledgered_def ledgers_grow_def seed_wipe_def)
    then show ?thesis
      using Inr dashboard_grows(1)[of "s\<lparr>main := m1\<rparr>" e]
      by (auto simp: seed_demo_dashboard intro: ledgers_grow_trans)
  qed
  show "backup_grows s (snd (seed_demo e s))"
  proof (cases "seed_inserts e (seed_wipe (main s))")
    case (Inl a)
    then show ?thesis by (simp add: seed_demo_dashboard backup_grows_def)
  next
    case (Inr m1)
    have "backup_grows s (s\<lparr>main := m1\<rparr>)" by (simp add: backup_grows_def)
    then show ?thesis
      using Inr dashboard_grows(2)[of "s\<lparr>main := m1\<rparr>" e]
      by (auto simp: seed_demo_dashboard intro: backup_grows_trans)
  qed
qed

lemma handle_grows:
  "r \<noteq> SeedDemo \<Longrightarrow> ledgers_grow s (snd (handle e r s))"
  "backup_grows s (snd (handle e r s))"
proof -
  show "r \<noteq> SeedDemo \<Longrightarrow> ledgers_grow s (snd (handle e r s))"
  proof (cases "runs_replication r")
    case True
    assume "r \<noteq> SeedDemo"
    with True show ?thesis
      by (cases r) (simp_all add: dashboard_grows add_product_grows add_item_grows)
  next
    case False
    then show ?thesis using no_replication_same[OF False, of e s] by (simp add: ledgers_grow_def)
  qed
  show "backup_grows s (snd (handle e r s))"
  proof (cases "runs_replication r")
    case True
    then show ?thesis
      by (cases r) (simp_all add: dashboard_grows add_product_grows add_item_grows seed_demo_grows)
  next
    case False
    then show ?thesis using no_replication_same[OF False, of e s] by (simp add: backup_grows_def)
  qed
qed

section \<open>What \<open>seed_demo\<close> leaves in the product tables\<close>

lemma seed_inserts_products:
  assumes "\<not> capture_fault e"
  shows "\<exists>m1. seed_inserts e (seed_wipe m) = Inr m1 \<and>
     map pa_snapshot (products_audit m1) = products_demo_snapshots \<and>
     map pa_audit_id (products_audit m1) =
       map (\<lambda>k. products_audit_seq m + k) [1, 2, 3, 4, 5]"
  using assms
  by (simp add: seed_inserts_def seed_wipe_def suppliers_demo_def products_demo_def order_items_demo_def
      insert_suppliers_def insert_products_def trg_products_audit_def insert_purchase_orders_def
      insert_purchase_order_items_def trg_order_items_audit_def next_rowid_def next_autoincrement_def
      pa_snapshot_def products_demo_snapshots_def Let_def)

lemma replicate_product_audit_same:
  "products_audit (main (snd (replicate_product_to_backup f now s))) = products_audit (main s)"
  using replicate_product_frame[of f now s] by auto

lemma replicate_order_item_products_same:
  "products_audit (main (snd (replicate_order_item_to_backup f now s))) = products_audit (main s)"
  "products_backup_ids (main (snd (replicate_order_item_to_backup f now s))) = products_backup_ids (main s)"
  "products_backup (backup (snd (replicate_order_item_to_backup f now s))) = products_backup (backup s)"
  using replicate_order_item_frame[of f now s] by auto

lemma dashboard_products_audit:
  "products_audit (main (snd (dashboard e s))) = products_audit (main s)"
  by (simp add: dashboard_snd replicate_product_audit_same replicate_order_item_products_same)

lemma seed_demo_products_audit:
  assumes "\<not> capture_fault e"
  shows "map pa_snapshot (products_audit (main (snd (seed_demo e s)))) = products_demo_snapshots"
    and "map pa_audit_id (products_audit (main (snd (seed_demo e s)))) =
           map (\<lambda>k. products_audit_seq (main s) + k) [1, 2, 3, 4, 5]"
proof -
  from seed_inserts_products[OF assms, of "main s"] obtain m1 where
    m1: "seed_inserts e (seed_wipe (main s)) = Inr m1" and
    snaps: "map pa_snapshot (products_audit m1) = products_demo_snapshots" and
    ids: "map pa_audit_id (products_audit m1) = map (\<lambda>k. products_audit_seq (main s) + k) [1, 2, 3, 4, 5]"
    by blast
  have "products_audit (main (snd (seed_demo e s))) = products_audit m1"
    using m1 by (simp add: seed_demo_dashboard dashboard_products_audit)
  then show "map pa_snapshot (products_audit (main (snd (seed_demo e s)))) = products_demo_snapshots"
    and "map pa_audit_id (products_audit (main (snd (seed_demo e s)))) =
           map (\<lambda>k. products_audit_seq (main s) + k) [1, 2, 3, 4, 5]"
    using snaps ids by simp_all
qed

text \<open>
  C5 fails as stated: in \<open>replicated_db\<close> the product ledger holds audit id 1, and
  after \<open>seed_demo\<close>, run without any fault, that ledger row is gone.
\<close>

theorem seed_demo_deletes_ledger_rows:
  "products_backup_ids (main replicated_db) = [1] \<and>
   1 \<notin> set (products_backup_ids (main (snd (handle (env_at 9) SeedDemo replicated_db))))"
proof -
  let ?s' = "snd (seed_demo (env_at 9) replicated_db)"
  have "stores_covered ?s'"
    by (rule seed_demo_stores) (simp add: env_commits_together_def commits_together_def env_at_def)
  then have sub: "set (products_backup_ids (main ?s')) \<subseteq> set (map pa_audit_id (products_audit (main ?s')))"
    by (simp add: stores_covered_def wf_main_def wf_products_def)
  have "map pa_audit_id (products_audit (main ?s')) = [2, 3, 4, 5, 6]"
    using seed_demo_products_audit(2)[of "env_at 9" replicated_db]
    by (simp add: env_at_def replicated_db_def pending_main_def)
  then have "1 \<notin> set (products_backup_ids (main ?s'))" using sub by auto
  then show ?thesis by (simp add: replicated_db_def)
qed

section \<open>Completeness of a pass\<close>

lemma distinct_prod_snapshot:
  "distinct (map prod_product_id xs) \<Longrightarrow> distinct (map prod_snapshot xs)"
  by (induction xs) (auto simp: prod_snapshot_def)

lemma distinct_poi_snapshot:
  "distinct (map poi_item_id xs) \<Longrightarrow> distinct (map poi_snapshot xs)"
  by (induction xs) (auto simp: poi_snapshot_def)

lemma wf_products_snapshots_distinct:
  "wf_products m \<Longrightarrow> distinct (map pa_snapshot (products_audit m))"
  by (simp add: wf_products_def distinct_prod_snapshot)

lemma wf_order_items_snapshots_distinct:
  "wf_order_items m \<Longrightarrow> distinct (map oia_snapshot (order_items_audit m))"
  by (simp add: wf_order_items_def distinct_poi_snapshot)

lemma replicate_product_complete:
  assumes ok: "replicate_product_to_backup f now s = (None, s')"
  shows "\<exists>new. products_backup (backup s') = products_backup (backup s) @ new \<and>
           map pb_snapshot new = map pa_snapshot (products_pending (main s))"
    and "stores_covered s \<Longrightarrow> a \<in> set (products_audit (main s)) \<Longrightarrow>
           1 \<le> products_backup_count s' (pa_snapshot a)"
    and "stores_consistent s \<Longrightarrow> a \<in> set (products_audit (main s)) \<Longrightarrow>
           products_backup_count s' (pa_snapshot a) = 1"
proof -
  have s': "s' = snd (replicate_product_to_backup f now s)" using ok by simp
  have f: "commits_together f"
    using ok by (auto simp: commits_together_def replicate_product_unfold split: sum.splits)
  from replicate_product_success[OF ok] obtain new seq' where
    m: "main s' = (main s)\<lparr>products_backup_ids :=
            products_backup_ids (main s) @ map pa_audit_id (products_pending (main s))\<rparr>" and
    b: "backup s' = (backup s)\<lparr>products_backup := products_backup (backup s) @ new,
                                           products_backup_seq := seq'\<rparr>" and
    snap: "map pb_snapshot new = map pa_snapshot (products_pending (main s))"
    by blast
  show "\<exists>new. products_backup (backup s') = products_backup (backup s) @ new \<and>
           map pb_snapshot new = map pa_snapshot (products_pending (main s))"
    using b snap by auto
  have led: "products_ledgered (main s') = products_audit (main s)"
    unfolding m by (rule products_ledgered_after)
  have mem: "a \<in> set (products_audit (main s)) \<Longrightarrow>
      1 \<le> count (mset (map pa_snapshot (products_audit (main s)))) (pa_snapshot a)"
    using count_mset_gt_0[of "pa_snapshot a" "map pa_snapshot (products_audit (main s))"] by auto
  {
    assume c: "stores_covered s" and a: "a \<in> set (products_audit (main s))"
    have "stores_covered s'" unfolding s' using f c by (rule replicate_product_stores(2))
    then have "mset (map pa_snapshot (products_audit (main s))) \<subseteq>#
               mset (map pb_snapshot (products_backup (backup s')))"
      by (simp add: stores_covered_def products_covered_def led)
    then have "count (mset (map pa_snapshot (products_audit (main s)))) (pa_snapshot a) \<le>
               count (mset (map pb_snapshot (products_backup (backup s')))) (pa_snapshot a)"
      by (rule mset_subset_eq_count)
    with mem[OF a] show "1 \<le> products_backup_count s' (pa_snapshot a)"
      unfolding products_backup_count_def count_mset[symmetric] by (rule order_trans)
  }
  {
    assume c: "stores_consistent s" and a: "a \<in> set (products_audit (main s))"
    have "stores_consistent s'"
      unfolding s' using f c
      by (simp add: stores_consistent_iff replicate_product_stores)
    then have eq: "mset (map pb_snapshot (products_backup (backup s'))) =
               mset (map pa_snapshot (products_audit (main s)))"
      by (simp add: stores_consistent_def products_matched_def led)
    have "distinct (map pa_snapshot (products_audit (main s)))"
      using c by (simp add: stores_consistent_def wf_main_def wf_products_snapshots_distinct)
    moreover have "pa_snapshot a \<in> set (map pa_snapshot (products_audit (main s)))"
      using a by simp
    ultimately have "count (mset (map pa_snapshot (products_audit (main s)))) (pa_snapshot a) = 1"
      unfolding distinct_count_atmost_1 by metis
    then show "products_backup_count s' (pa_snapshot a) = 1"
      unfolding products_backup_count_def count_mset[symmetric] eq .
  }
qed

lemma replicate_order_item_complete:
  assumes ok: "replicate_order_item_to_backup f now s = (None, s')"
  shows "\<exists>new. order_items_backup (backup s') = order_items_backup (backup s) @ new \<and>
           map oib_snapshot new = map oia_snapshot (order_items_pending (main s))"
    and "stores_covered s \<Longrightarrow> a \<in> set (order_items_audit (main s)) \<Longrightarrow>
           1 \<le> order_items_backup_count s' (oia_snapshot a)"
    and "stores_consistent s \<Longrightarrow> a \<in> set (order_items_audit (main s)) \<Longrightarrow>
           order_items_backup_count s' (oia_snapshot a) = 1"
proof -
  have s': "s' = snd (replicate_order_item_to_backup f now s)" using ok by simp
  have f: "commits_together f"
    using ok by (auto simp: commits_together_def replicate_order_item_unfold split: sum.splits)
  from replicate_order_item_success[OF ok] obtain new seq' where
    m: "main s' = (main s)\<lparr>order_items_backup_ids :=
            order_items_backup_ids (main s) @ map oia_audit_id (order_items_pending (main s))\<rparr>" and
    b: "backup s' = (backup s)\<lparr>order_items_backup := order_items_backup (backup s) @ new,
                                           order_items_backup_seq := seq'\<rparr>" and
    snap: "map oib_snapshot new = map oia_snapshot (order_items_pending (main s))"
    by blast
  show "\<exists>new. order_items_backup (backup s') = order_items_backup (backup s) @ new \<and>
           map oib_snapshot new = map oia_snapshot (order_items_pending (main s))"
    using b snap by auto
  have led: "order_items_ledgered (main s') = order_items_audit (main s)"
    unfolding m by (rule order_items_ledgered_after)
  have mem: "a \<in> set (order_items_audit (main s)) \<Longrightarrow>
      1 \<le> count (mset (map oia_snapshot (order_items_audit (main s)))) (oia_snapshot a)"
    using count_mset_gt_0[of "oia_snapshot a" "map oia_snapshot (order_items_audit (main s))"] by auto
  {
    assume c: "stores_covered s" and a: "a \<in> set (order_items_audit (main s))"
    have "stores_covered s'" unfolding s' using f c by (rule replicate_order_item_stores(2))
    then have "mset (map oia_snapshot (order_items_audit (main s))) \<subseteq>#
               mset (map oib_snapshot (order_items_backup (backup s')))"
      by (simp add: stores_covered_def order_items_covered_def led)
    then have "count (mset (map oia_snapshot (order_items_audit (main s)))) (oia_snapshot a) \<le>
               count (mset (map oib_snapshot (order_items_backup (backup s')))) (oia_snapshot a)"
      by (rule mset_subset_eq_count)
    with mem[OF a] show "1 \<le> order_items_backup_count s' (oia_snapshot a)"
      unfolding order_items_backup_count_def count_mset[symmetric] by (rule order_trans)
  }
  {
    assume c: "stores_consistent s" and a: "a \<in> set (order_items_audit (main s))"
    have "stores_consistent s'"
      unfolding s' using f c
      by (simp add: stores_consistent_iff replicate_order_item_stores)
    then have eq: "mset (map oib_snapshot (order_items_backup (backup s'))) =
               mset (map oia_snapshot (order_items_audit (main s)))"
      by (simp add: stores_consistent_def order_items_matched_def led)
    have "distinct (map oia_snapshot (order_items_audit (main s)))"
      using c by (simp add: stores_consistent_def wf_main_def wf_order_items_snapshots_distinct)
    moreover have "oia_snapshot a \<in> set (map oia_snapshot (order_items_audit (main s)))"
      using a by simp
    ultimately have "count (mset (map oia_snapshot (order_items_audit (main s)))) (oia_snapshot a) = 1"
      unfolding distinct_count_atmost_1 by metis
    then show "order_items_backup_count s' (oia_snapshot a) = 1"
      unfolding order_items_backup_count_def count_mset[symmetric] eq .
  }
qed


text \<open>
  C3, as the code has it. When a pass of either kind returns normally, it has appended
  one backup record for each row that was pending at its read, in that order and with
  the fields of the audit row. If before the pass every ledgered row had a backup
  record of its own, then afterwards every audit row has at least one backup record with
  its snapshot fields. If before the pass ledger and backup corresponded one-to-one (as
  in every state reached without \<open>seed_demo\<close> and without a stop between two commits),
  it has exactly one.
\<close>

theorem replication_complete:
  "(replicate_product_to_backup f now s = (None, s') \<longrightarrow>
      (\<exists>new. products_backup (backup s') = products_backup (backup s) @ new \<and>
             map pb_snapshot new = map pa_snapshot (products_pending (main s))) \<and>
      (stores_covered s \<longrightarrow>
         (\<forall>a \<in> set (products_audit (main s)). 1 \<le> products_backup_count s' (pa_snapshot a))) \<and>
      (stores_consistent s \<longrightarrow>
         (\<forall>a \<in> set (products_audit (main s)). products_backup_count s' (pa_snapshot a) = 1))) \<and>
   (replicate_order_item_to_backup f now s = (None, s') \<longrightarrow>
      (\<exists>new. order_items_backup (backup s') = order_items_backup (backup s) @ new \<and>
             map oib_snapshot new = map oia_snapshot (order_items_pending (main s))) \<and>
      (stores_covered s \<longrightarrow>
         (\<forall>a \<in> set (order_items_audit (main s)). 1 \<le> order_items_backup_count s' (oia_snapshot a))) \<and>
      (stores_consistent s \<longrightarrow>
         (\<forall>a \<in> set (order_items_audit (main s)). order_items_backup_count s' (oia_snapshot a) = 1)))"
proof (intro conjI impI ballI)
  assume "replicate_product_to_backup f now s = (None, s')"
  then show "\<exists>new. products_backup (backup s') = products_backup (backup s) @ new \<and>
             map pb_snapshot new = map pa_snapshot (products_pending (main s))"
    by (rule replicate_product_complete(1))
next
  fix a
  assume "replicate_product_to_backup f now s = (None, s')" "stores_covered s"
    "a \<in> set (products_audit (main s))"
  then show "1 \<le> products_backup_count s' (pa_snapshot a)"
    by (rule replicate_product_complete(2))
next
  fix a
  assume "replicate_product_to_backup f now s = (None, s')" "stores_consistent s"
    "a \<in> set (products_audit (main s))"
  then show "products_backup_count s' (pa_snapshot a) = 1"
    by (rule replicate_product_complete(3))
next
  assume "replicate_order_item_to_backup f now s = (None, s')"
  then show "\<exists>new. order_items_backup (backup s') = order_items_backup (backup s) @ new \<and>
             map oib_snapshot new = map oia_snapshot (order_items_pending (main s))"
    by (rule replicate_order_item_complete(1))
next
  fix a
  assume "replicate_order_item_to_backup f now s = (None, s')" "stores_covered s"
    "a \<in> set (order_items_audit (main s))"
  then show "1 \<le> order_items_backup_count s' (oia_snapshot a)"
    by (rule replicate_order_item_complete(2))
next
  fix a
  assume "replicate_order_item_to_backup f now s = (None, s')" "stores_consistent s"
    "a \<in> set (order_items_audit (main s))"
  then show "order_items_backup_count s' (oia_snapshot a) = 1"
    by (rule replicate_order_item_complete(3))
qed

lemma half_replicated_db_consistent: "stores_consistent half_replicated_db"
proof -
  have "stores_consistent (snd (replicate_product_to_backup NoFault (\<lambda>_. 7) pending_db))"
    using pending_db_consistent
    by (simp add: stores_consistent_iff replicate_product_stores commits_together_def)
  then show ?thesis by (simp add: pending_db_product_pass)
qed

theorem replication_complete_witness:
  "replicate_product_to_backup NoFault (\<lambda>_. 7) pending_db = (None, half_replicated_db) \<and>
   stores_covered pending_db \<and> stores_consistent pending_db \<and>
   map pa_snapshot (products_audit (main pending_db)) = [(1, ''Widget'', Some ''W-1'', 999 / 100)] \<and>
   products_backup_count half_replicated_db (1, ''Widget'', Some ''W-1'', 999 / 100) = 1 \<and>
   replicate_order_item_to_backup NoFault (\<lambda>_. 7) half_replicated_db = (None, replicated_db) \<and>
   stores_covered half_replicated_db \<and> stores_consistent half_replicated_db \<and>
   map oia_snapshot (order_items_audit (main half_replicated_db)) = [(1, 1, None, ''Cable'', 10, 160)] \<and>
   order_items_backup_count replicated_db (1, 1, None, ''Cable'', 10, 160) = 1"
proof -
  have a: "map pa_snapshot (products_audit (main pending_db)) = [(1, ''Widget'', Some ''W-1'', 999 / 100)]"
    "map oia_snapshot (order_items_audit (main half_replicated_db)) = [(1, 1, None, ''Cable'', 10, 160)]"
    by (simp_all add: pending_db_def pending_main_def half_replicated_db_def pa_snapshot_def
        oia_snapshot_def)
  have c: "stores_covered pending_db" "stores_covered half_replicated_db"
    using pending_db_consistent half_replicated_db_consistent
    by (simp_all add: stores_consistent_iff)
  have "\<forall>a \<in> set (products_audit (main pending_db)).
          products_backup_count half_replicated_db (pa_snapshot a) = 1"
    using replication_complete[of NoFault "\<lambda>_. 7" pending_db half_replicated_db]
      pending_db_product_pass pending_db_consistent by simp
  then have "\<forall>x \<in> set (map pa_snapshot (products_audit (main pending_db))).
          products_backup_count half_replicated_db x = 1"
    by simp
  then have p: "products_backup_count half_replicated_db (1, ''Widget'', Some ''W-1'', 999 / 100) = 1"
    unfolding a by simp
  have "\<forall>a \<in> set (order_items_audit (main half_replicated_db)).
          order_items_backup_count replicated_db (oia_snapshot a) = 1"
    using replication_complete[of NoFault "\<lambda>_. 7" half_replicated_db replicated_db]
      half_replicated_db_item_pass half_replicated_db_consistent by simp
  then have "\<forall>x \<in> set (map oia_snapshot (order_items_audit (main half_replicated_db))).
          order_items_backup_count replicated_db x = 1"
    by simp
  then have i: "order_items_backup_count replicated_db (1, 1, None, ''Cable'', 10, 160) = 1"
    unfolding a by simp
  show ?thesis
    using pending_db_product_pass half_replicated_db_item_pass pending_db_consistent
      half_replicated_db_consistent c a p i
    by simp
qed

lemma products_pending_cong:
  "products_audit m' = products_audit m \<Longrightarrow> products_backup_ids m' = products_backup_ids m \<Longrightarrow>
   products_pending m' = products_pending m"
  by (simp add: products_pending_def)

lemma seed_demo_products_backup:
  assumes cf: "\<not> capture_fault e" and pf: "product_fault e = NoFault"
  shows "map pb_snapshot (products_backup (backup (snd (seed_demo e s)))) =
           map pb_snapshot (products_backup (backup s)) @ products_demo_snapshots"
    and "products_pending (main (snd (seed_demo e s))) = []"
proof -
  from seed_inserts_products[OF cf, of "main s"] obtain m1 where
    m1: "seed_inserts e (seed_wipe (main s)) = Inr m1" and
    snaps: "map pa_snapshot (products_audit m1) = products_demo_snapshots"
    by blast
  have u: "unledgered m1" using unledgered_seed_inserts[OF unledgered_seed_wipe m1] .
  let ?s1 = "s\<lparr>main := m1\<rparr>"
  let ?s2 = "snd (replicate_product_to_backup NoFault (clock e) ?s1)"
  have ok: "fst (replicate_product_to_backup NoFault (clock e) ?s1) = None"
    using u by (intro replicate_product_NoFault) (simp add: unledgered_def wf_main_def wf_products_def)
  then have pass: "replicate_product_to_backup NoFault (clock e) ?s1 = (None, ?s2)"
    by (simp add: prod_eq_iff)
  from replicate_product_success[OF pass] obtain new seq' where
    m: "main ?s2 = (main ?s1)\<lparr>products_backup_ids :=
            products_backup_ids (main ?s1) @ map pa_audit_id (products_pending (main ?s1))\<rparr>" and
    b: "backup ?s2 = (backup ?s1)\<lparr>products_backup := products_backup (backup ?s1) @ new,
                                           products_backup_seq := seq'\<rparr>" and
    snap: "map pb_snapshot new = map pa_snapshot (products_pending (main ?s1))"
    by blast
  have s': "snd (seed_demo e s) =
      snd (replicate_order_item_to_backup (order_item_fault e) (clock e) ?s2)"
    using m1 ok pf by (simp add: seed_demo_dashboard dashboard_snd)
  have "map pb_snapshot (products_backup (backup ?s2)) =
          map pb_snapshot (products_backup (backup s)) @ products_demo_snapshots"
    using b snap snaps unledgered_products(2)[OF u] by simp
  then show "map pb_snapshot (products_backup (backup (snd (seed_demo e s)))) =
           map pb_snapshot (products_backup (backup s)) @ products_demo_snapshots"
    unfolding s' by (simp add: replicate_order_item_products_same)
  have "products_pending (main ?s2) = []"
    unfolding m by (rule products_pending_after)
  then show "products_pending (main (snd (seed_demo e s))) = []"
    unfolding s' by (simp add: products_pending_cong[OF replicate_order_item_products_same(1,2)])
qed

text \<open>
  C3 fails as stated. After \<open>seed_demo\<close> has run twice without any fault, the audit
  row of the first demo product exists, a product pass returns normally, and there are
  two backup records with the fields of that audit row: the one made after the second
  seeding and the one left from the first.
\<close>

theorem seed_twice_two_backup_records:
  "replicate_product_to_backup NoFault (clock (env_at 11)) (run seed_twice_history init_db) =
     (None, run seed_twice_history init_db) \<and>
   (1, ''3-Pin Power Cable'', Some ''PC-3PIN-IND'', 160) \<in>
     set (map pa_snapshot (products_audit (main (run seed_twice_history init_db)))) \<and>
   products_backup_count (run seed_twice_history init_db)
     (1, ''3-Pin Power Cable'', Some ''PC-3PIN-IND'', 160) = 2"
proof -
  let ?s1 = "snd (seed_demo (env_at 5) init_db)"
  let ?s2 = "snd (seed_demo (env_at 9) ?s1)"
  have run: "run seed_twice_history init_db = ?s2"
    by (simp add: seed_twice_history_def)
  have e: "\<not> capture_fault (env_at 5)" "product_fault (env_at 5) = NoFault"
    "\<not> capture_fault (env_at 9)" "product_fault (env_at 9) = NoFault"
    by (simp_all add: env_at_def)
  have b1: "map pb_snapshot (products_backup (backup ?s1)) = products_demo_snapshots"
    using seed_demo_products_backup(1)[OF e(1,2), of init_db]
    by (simp add: init_db_def init_backup_def)
  have b2: "map pb_snapshot (products_backup (backup ?s2)) =
              products_demo_snapshots @ products_demo_snapshots"
    using seed_demo_products_backup(1)[OF e(3,4), of ?s1] b1 by simp
  have p2: "products_pending (main ?s2) = []"
    by (rule seed_demo_products_backup(2)[OF e(3,4)])
  have a2: "map pa_snapshot (products_audit (main ?s2)) = products_demo_snapshots"
    by (rule seed_demo_products_audit(1)[OF e(3)])
  have "replicate_product_to_backup NoFault (clock (env_at 11)) ?s2 = (None, ?s2)"
    using p2 by (simp add: replicate_product_unfold)
  moreover have "(1, ''3-Pin Power Cable'', Some ''PC-3PIN-IND'', 160) \<in>
     set (map pa_snapshot (products_audit (main ?s2)))"
    unfolding a2 by (simp add: products_demo_snapshots_def)
  moreover have "products_backup_count ?s2 (1, ''3-Pin Power Cable'', Some ''PC-3PIN-IND'', 160) = 2"
    unfolding products_backup_count_def b2 by (simp add: products_demo_snapshots_def)
  ultimately show ?thesis unfolding run by blast
qed

section \<open>Capture\<close>

lemma dashboard_wf: "wf_main (main s) \<Longrightarrow> wf_main (main (snd (dashboard e s)))"
  by (simp add: dashboard_snd replicate_product_stores(1) replicate_order_item_stores(1))

lemma seed_demo_wf: "wf_main (main (snd (seed_demo e s)))"
proof (cases "seed_inserts e (seed_wipe (main s))")
  case (Inl err)
  then show ?thesis using unledgered_seed_wipe[of "main s"] by (simp add: seed_demo_dashboard unledgered_def)
next
  case (Inr m1)
  have "unledgered m1" using unledgered_seed_inserts[OF unledgered_seed_wipe Inr] .
  then have "wf_main (main (s\<lparr>main := m1\<rparr>))" by (simp add: unledgered_def)
  then show ?thesis using Inr dashboard_wf by (simp add: seed_demo_dashboard)
qed

lemma handle_wf:
  assumes "wf_main (main s)"
  shows "wf_main (main (snd (handle e r s)))"
proof (cases r)
  case SeedDemo
  then show ?thesis by (simp add: seed_demo_wf)
next
  case Dashboard
  then show ?thesis using assms by (simp add: dashboard_wf)
next
  case (AddSupplier n c ph em a ci st co)
  then show ?thesis using assms
    by (auto simp: add_supplier_def suppliers_update_stores(1) dest!: insert_suppliers_other
        split: sum.splits)
next
  case (SupplierDeactivate sid)
  then show ?thesis using assms by (simp add: supplier_deactivate_def suppliers_update_stores(1))
next
  case (AddProduct n sku price)
  then show ?thesis using assms
    by (auto simp: add_product_def replicate_product_stores(1) insert_products_stores(1)
        split: sum.splits)
next
  case (AddOrder sid nts)
  then show ?thesis using assms
    by (auto simp: add_order_def purchase_orders_update_stores(1) dest!: insert_purchase_orders_other
        split: sum.splits)
next
  case (AddItem oid d q price)
  then show ?thesis using assms
    by (auto simp: add_item_def replicate_order_item_stores(1) insert_purchase_order_items_stores(1)
        split: sum.splits)
next
  case ReadOnly
  then show ?thesis using assms by simp
qed

lemma run_wf: "wf_main (main s) \<Longrightarrow> wf_main (main (run evs s))"
proof (induction evs arbitrary: s)
  case Nil
  then show ?case by simp
next
  case (Cons ev evs)
  obtain e r where ev: "ev = (e, r)" by (cases ev)
  show ?case using Cons.IH[OF handle_wf[OF Cons.prems, of e r]] ev by simp
qed

lemma insert_products_capture:
  assumes "insert_products fl now n sku price m = Inr m'"
  shows "\<exists>p a. products m' = products m @ [p] \<and> products_audit m' = products_audit m @ [a] \<and>
           prod_name p = n \<and> prod_sku p = sku \<and> prod_unit_price p = price \<and>
           pa_snapshot a = prod_snapshot p \<and> pa_audit_time a = now \<and>
           list_all (\<lambda>x. pa_audit_id x < pa_audit_id a) (products_audit m)"
proof -
  from insert_products_Inr[OF assms] obtain p a where
    m': "m' = m\<lparr>products := products m @ [p], products_audit := products_audit m @ [a],
                       products_audit_seq := pa_audit_id a\<rparr>" and
    p: "prod_name p = n" "prod_sku p = sku" "prod_unit_price p = price" and
    a: "pa_snapshot a = prod_snapshot p" "pa_audit_time a = now" and
    aid: "pa_audit_id a = next_autoincrement (products_audit_seq m) (map pa_audit_id (products_audit m))"
    by blast
  have "list_all (\<lambda>x. pa_audit_id x < pa_audit_id a) (products_audit m)"
    unfolding aid list_all_iff using next_autoincrement_gt_ids by auto
  then show ?thesis using m' p a by (intro exI[of _ p] exI[of _ a]) simp
qed

lemma insert_purchase_order_items_capture:
  assumes "insert_purchase_order_items fl now oid d q price m = Inr m'"
  shows "\<exists>p a. purchase_order_items m' = purchase_order_items m @ [p] \<and>
           order_items_audit m' = order_items_audit m @ [a] \<and>
           poi_order_id p = oid \<and> poi_description p = d \<and> poi_quantity p = q \<and>
           poi_unit_price p = price \<and>
           oia_snapshot a = poi_snapshot p \<and> oia_audit_time a = now \<and>
           list_all (\<lambda>x. oia_audit_id x < oia_audit_id a) (order_items_audit m)"
proof -
  from insert_purchase_order_items_Inr[OF assms] obtain p a where
    m': "m' = m\<lparr>purchase_order_items := purchase_order_items m @ [p],
                       order_items_audit := order_items_audit m @ [a],
                       order_items_audit_seq := oia_audit_id a\<rparr>" and
    p: "poi_order_id p = oid" "poi_description p = d" "poi_quantity p = q" "poi_unit_price p = price" and
    a: "oia_snapshot a = poi_snapshot p" "oia_audit_time a = now" and
    aid: "oia_audit_id a = next_autoincrement (order_items_audit_seq m) (map oia_audit_id (order_items_audit m))"
    by blast
  have "list_all (\<lambda>x. oia_audit_id x < oia_audit_id a) (order_items_audit m)"
    unfolding aid list_all_iff using next_autoincrement_gt_ids by auto
  then show ?thesis using m' p a by (intro exI[of _ p] exI[of _ a]) simp
qed

lemma capture_fault_aborts:
  "\<exists>err. insert_products True now n sku price m = Inl err"
  "\<exists>err. insert_purchase_order_items True now oid d q price m = Inl err"
  by (simp_all add: insert_products_def insert_purchase_order_items_def trg_products_audit_def
      trg_order_items_audit_def Let_def)

lemma capture_fault_handle:
  assumes "capture_fault e"
  shows "snd (handle e (AddProduct n sku price) s) = s"
    and "snd (handle e (AddItem oid d q price) s) = s"
  using assms capture_fault_aborts(1)[of "clock e 0" n "Some sku" price "main s"]
    capture_fault_aborts(2)[of "clock e 0" oid d q price "main s"]
  by (auto simp: add_product_def add_item_def)

lemma audit_mirrors_tables:
  "map pa_snapshot (products_audit (main (run evs init_db))) =
     map prod_snapshot (products (main (run evs init_db)))"
  "map oia_snapshot (order_items_audit (main (run evs init_db))) =
     map poi_snapshot (purchase_order_items (main (run evs init_db)))"
proof -
  have "wf_main (main (run evs init_db))"
    using init_db_consistent by (intro run_wf) (simp add: stores_consistent_def)
  then show "map pa_snapshot (products_audit (main (run evs init_db))) =
     map prod_snapshot (products (main (run evs init_db)))"
    and "map oia_snapshot (order_items_audit (main (run evs init_db))) =
     map poi_snapshot (purchase_order_items (main (run evs init_db)))"
    by (simp_all add: wf_main_def wf_products_def wf_order_items_def)
qed

lemma handle_audit_same:
  assumes "\<not> inserts_tracked r"
  shows "products_audit (main (snd (handle e r s))) = products_audit (main s)"
    and "order_items_audit (main (snd (handle e r s))) = order_items_audit (main s)"
proof -
  have d: "products_audit (main (snd (dashboard e s))) = products_audit (main s)"
    "order_items_audit (main (snd (dashboard e s))) = order_items_audit (main s)"
    using replicate_product_frame[of "product_fault e" "clock e" s]
      replicate_order_item_frame[of "order_item_fault e" "clock e"
        "snd (replicate_product_to_backup (product_fault e) (clock e) s)"]
    by (auto simp: dashboard_snd)
  show "products_audit (main (snd (handle e r s))) = products_audit (main s)"
    using assms d(1)
    by (cases r)
       (auto simp: add_supplier_def add_order_def supplier_deactivate_def
          dest!: insert_suppliers_other insert_purchase_orders_other split: sum.splits)
  show "order_items_audit (main (snd (handle e r s))) = order_items_audit (main s)"
    using assms d(2)
    by (cases r)
       (auto simp: add_supplier_def add_order_def supplier_deactivate_def
          dest!: insert_suppliers_other insert_purchase_orders_other split: sum.splits)
qed

text \<open>
  C4. An insert into \<open>products\<close> or \<open>purchase_order_items\<close> that succeeds adds one
  row to the table and, in the same statement, one row to the audit table with the
  snapshot of the new row, the clock of the insert and an audit id above all earlier
  ones. When the audit insert of the trigger fails, the statement fails and the request
  leaves both stores as they were. A request whose handler inserts into neither tracked
  table leaves both audit tables unchanged, and in every state the system reaches,
  under any faults, each audit table holds the snapshots of its tracked table, one row
  for one row.
\<close>

theorem capture_atomic:
  "(insert_products fl now n sku price m = Inr m' \<longrightarrow>
      (\<exists>p a. products m' = products m @ [p] \<and> products_audit m' = products_audit m @ [a] \<and>
           prod_name p = n \<and> prod_sku p = sku \<and> prod_unit_price p = price \<and>
           pa_snapshot a = prod_snapshot p \<and> pa_audit_time a = now \<and>
           list_all (\<lambda>x. pa_audit_id x < pa_audit_id a) (products_audit m))) \<and>
   (insert_purchase_order_items fl inow oid d q iprice im = Inr im' \<longrightarrow>
      (\<exists>p a. purchase_order_items im' = purchase_order_items im @ [p] \<and>
           order_items_audit im' = order_items_audit im @ [a] \<and>
           poi_order_id p = oid \<and> poi_description p = d \<and> poi_quantity p = q \<and>
           poi_unit_price p = iprice \<and>
           oia_snapshot a = poi_snapshot p \<and> oia_audit_time a = inow \<and>
           list_all (\<lambda>x. oia_audit_id x < oia_audit_id a) (order_items_audit im))) \<and>
   (\<exists>err. insert_products True now n sku price m = Inl err) \<and>
   (\<exists>err. insert_purchase_order_items True inow oid d q iprice im = Inl err) \<and>
   (capture_fault e \<longrightarrow>
      snd (handle e (AddProduct n sku' price) s) = s \<and>
      snd (handle e (AddItem oid d q iprice) s) = s) \<and>
   (\<not> inserts_tracked r \<longrightarrow>
      products_audit (main (snd (handle e r s))) = products_audit (main s) \<and>
      order_items_audit (main (snd (handle e r s))) = order_items_audit (main s)) \<and>
   map pa_snapshot (products_audit (main (run evs init_db))) =
     map prod_snapshot (products (main (run evs init_db))) \<and>
   map oia_snapshot (order_items_audit (main (run evs init_db))) =
     map poi_snapshot (purchase_order_items (main (run evs init_db)))"
proof (intro conjI impI)
  assume "insert_products fl now n sku price m = Inr m'"
  then show "\<exists>p a. products m' = products m @ [p] \<and> products_audit m' = products_audit m @ [a] \<and>
           prod_name p = n \<and> prod_sku p = sku \<and> prod_unit_price p = price \<and>
           pa_snapshot a = prod_snapshot p \<and> pa_audit_time a = now \<and>
           list_all (\<lambda>x. pa_audit_id x < pa_audit_id a) (products_audit m)"
    by (rule insert_products_capture)
next
  assume "insert_purchase_order_items fl inow oid d q iprice im = Inr im'"
  then show "\<exists>p a. purchase_order_items im' = purchase_order_items im @ [p] \<and>
           order_items_audit im' = order_items_audit im @ [a] \<and>
           poi_order_id p = oid \<and> poi_description p = d \<and> poi_quantity p = q \<and>
           poi_unit_price p = iprice \<and>
           oia_snapshot a = poi_snapshot p \<and> oia_audit_time a = inow \<and>
           list_all (\<lambda>x. oia_audit_id x < oia_audit_id a) (order_items_audit im)"
    by (rule insert_purchase_order_items_capture)
next
  show "\<exists>err. insert_products True now n sku price m = Inl err"
    by (rule capture_fault_aborts(1))
  show "\<exists>err. insert_purchase_order_items True inow oid d q iprice im = Inl err"
    by (rule capture_fault_aborts(2))
next
  assume "capture_fault e"
  then show "snd (handle e (AddProduct n sku' price) s) = s"
    and "snd (handle e (AddItem oid d q iprice) s) = s"
    by (rule capture_fault_handle)+
next
  assume "\<not> inserts_tracked r"
  then show "products_audit (main (snd (handle e r s))) = products_audit (main s)"
    and "order_items_audit (main (snd (handle e r s))) = order_items_audit (main s)"
    by (rule handle_audit_same)+
next
  show "map pa_snapshot (products_audit (main (run evs init_db))) =
     map prod_snapshot (products (main (run evs init_db)))"
    by (rule audit_mirrors_tables(1))
  show "map oia_snapshot (order_items_audit (main (run evs init_db))) =
     map poi_snapshot (purchase_order_items (main (run evs init_db)))"
    by (rule audit_mirrors_tables(2))
qed

lemma widget_main_insert:
  "insert_products False 0 ''Widget'' (Some ''W-1'') (999 / 100) init_main = Inr widget_main"
  by (simp add: eval_defs widget_main_def)

lemma two_items_main_insert:
  "insert_purchase_order_items False 3 1 ''Plug'' 2 30 pending_main = Inr two_items_main"
  by (simp add: eval_defs two_items_main_def)

theorem capture_atomic_witness:
  "insert_products False 0 ''Widget'' (Some ''W-1'') (999 / 100) init_main = Inr widget_main \<and>
   insert_purchase_order_items False 3 1 ''Plug'' 2 30 pending_main = Inr two_items_main \<and>
   capture_fault env_no_capture \<and> \<not> inserts_tracked Dashboard \<and>
   snd (handle env_no_capture (AddProduct ''Widget'' ''W-1'' (999 / 100)) pending_db) = pending_db \<and>
   snd (handle env_no_capture (AddItem 1 ''Plug'' 2 30) pending_db) = pending_db \<and>
   products_audit (main (snd (handle env_no_capture Dashboard pending_db))) =
     products_audit (main pending_db) \<and>
   map pa_snapshot (products_audit (main (run pending_history init_db))) =
     map prod_snapshot (products (main (run pending_history init_db)))"
proof -
  have cf: "capture_fault env_no_capture" by (simp add: env_no_capture_def)
  note inst = capture_atomic[where fl = False and now = 0 and n = "''Widget''"
        and sku = "Some ''W-1''" and price = "999 / 100" and m = init_main and m' = widget_main
        and inow = 3 and oid = 1 and d = "''Plug''" and q = 2 and iprice = 30
        and im = pending_main and im' = two_items_main
        and e = env_no_capture and sku' = "''W-1''" and s = pending_db and r = Dashboard
        and evs = pending_history]
  show ?thesis
    using inst widget_main_insert two_items_main_insert cf by simp
qed

section \<open>Idempotence of a pass\<close>

text \<open>
  C2. In a well-formed main database a pass of either kind that meets no fault returns
  normally. When a pass has returned normally, a second pass right after it returns
  normally too and leaves both stores exactly as they are, so it adds no backup record;
  whatever fault the second pass meets, it still changes nothing.
\<close>

theorem replication_idempotent:
  "(wf_main (main s) \<longrightarrow>
      fst (replicate_product_to_backup NoFault now s) = None \<and>
      fst (replicate_order_item_to_backup NoFault now s) = None) \<and>
   (replicate_product_to_backup f now s = (None, s1) \<longrightarrow>
      replicate_product_to_backup NoFault now' s1 = (None, s1) \<and>
      snd (replicate_product_to_backup f' now' s1) = s1) \<and>
   (replicate_order_item_to_backup f now s = (None, s1) \<longrightarrow>
      replicate_order_item_to_backup NoFault now' s1 = (None, s1) \<and>
      snd (replicate_order_item_to_backup f' now' s1) = s1)"
proof (intro conjI impI)
  assume wf: "wf_main (main s)"
  show "fst (replicate_product_to_backup NoFault now s) = None"
    using wf by (intro replicate_product_NoFault) (simp add: wf_main_def wf_products_def)
  show "fst (replicate_order_item_to_backup NoFault now s) = None"
    using wf by (intro replicate_order_item_NoFault) (simp add: wf_main_def wf_order_items_def)
next
  assume a: "replicate_product_to_backup f now s = (None, s1)"
  show "replicate_product_to_backup NoFault now' s1 = (None, s1)"
    by (rule replicate_product_twice(1)[OF a])
  show "snd (replicate_product_to_backup f' now' s1) = s1"
    by (rule replicate_product_twice(2)[OF a])
next
  assume a: "replicate_order_item_to_backup f now s = (None, s1)"
  show "replicate_order_item_to_backup NoFault now' s1 = (None, s1)"
    by (rule replicate_order_item_twice(1)[OF a])
  show "snd (replicate_order_item_to_backup f' now' s1) = s1"
    by (rule replicate_order_item_twice(2)[OF a])
qed

theorem replication_idempotent_witness:
  "wf_main (main pending_db) \<and> wf_main (main half_replicated_db) \<and>
   replicate_product_to_backup NoFault (\<lambda>_. 7) pending_db = (None, half_replicated_db) \<and>
   replicate_product_to_backup NoFault (\<lambda>_. 9) half_replicated_db = (None, half_replicated_db) \<and>
   replicate_order_item_to_backup NoFault (\<lambda>_. 7) half_replicated_db = (None, replicated_db) \<and>
   replicate_order_item_to_backup NoFault (\<lambda>_. 9) replicated_db = (None, replicated_db)"
proof -
  have wf: "wf_main (main pending_db)" "wf_main (main half_replicated_db)"
    using pending_db_consistent half_replicated_db_consistent
    by (simp_all add: stores_consistent_def)
  have "fst (replicate_product_to_backup NoFault (\<lambda>_. 7) pending_db) = None"
    "fst (replicate_order_item_to_backup NoFault (\<lambda>_. 7) half_replicated_db) = None"
    using replication_idempotent[of pending_db "\<lambda>_. 7"]
      replication_idempotent[of half_replicated_db "\<lambda>_. 7"] wf
    by simp_all
  then show ?thesis
    using replication_idempotent[of pending_db "\<lambda>_. 7" NoFault half_replicated_db "\<lambda>_. 9"]
      replication_idempotent[of half_replicated_db "\<lambda>_. 7" NoFault replicated_db "\<lambda>_. 9"]
      pending_db_product_pass half_replicated_db_item_pass wf
    by simp
qed

section \<open>Every fault of a pass\<close>

lemma two_pending_db_reachable: "run two_pending_history init_db = two_pending_db"
  by (simp add: two_pending_history_def two_pending_db_def two_pending_main_def eval_defs)

lemma two_pending_db_consistent: "stores_consistent two_pending_db"
proof -
  have h: "list_all (\<lambda>(e, r). env_commits_together e) two_pending_history"
    "list_all (\<lambda>(e, r). r \<noteq> SeedDemo) two_pending_history"
    by (simp_all add: two_pending_history_def env_commits_together_def commits_together_def env_no_pass_def)
  show ?thesis
    using run_covered[OF h(1), of init_db] run_no_dup[OF h(2), of init_db] init_db_consistent
    by (simp add: stores_consistent_iff two_pending_db_reachable)
qed

lemma two_pending_db_pending:
  "products_pending (main two_pending_db) = products_audit two_pending_main"
  "length (products_pending (main two_pending_db)) = 2"
  by (simp_all add: products_pending_def two_pending_db_def two_pending_main_def init_main_def)

lemma replicate_product_rows_no_write_fault:
  assumes "\<And>k. f \<noteq> BackupWriteFails k" "\<And>k. f \<noteq> LedgerWriteFails k"
  shows "distinct (map pa_audit_id rows) \<Longrightarrow>
   set (map pa_audit_id rows) \<inter> set (products_backup_ids m) = {} \<Longrightarrow>
   \<exists>m' b'. replicate_product_rows f now i rows m b = Inr (m', b')"
proof (induction rows arbitrary: i m b)
  case Nil
  then show ?case by simp
next
  case (Cons r rows)
  let ?m1 = "m\<lparr>products_backup_ids := products_backup_ids m @ [pa_audit_id r]\<rparr>"
  have ins: "insert_products_backup_ids (pa_audit_id r) m = Inr ?m1"
    using Cons.prems by (simp add: insert_products_backup_ids_def)
  have "distinct (map pa_audit_id rows)" using Cons.prems by simp
  moreover have "set (map pa_audit_id rows) \<inter> set (products_backup_ids ?m1) = {}"
    using Cons.prems by auto
  ultimately obtain m' b' where
    "replicate_product_rows f now (Suc i) rows ?m1
       (insert_products_backup (now i) (pa_product_id r) (pa_name r) (pa_sku r) (pa_unit_price r) b) = Inr (m', b')"
    using Cons.IH by blast
  then show ?case using ins assms by (simp add: Let_def)
qed

lemma replicate_product_commit_failures:
  "\<exists>e. replicate_product_to_backup MainCommitFails now s = (Some e, s)"
  "wf_main (main s) \<Longrightarrow>
     replicate_product_to_backup BackupCommitFails now s =
       (Some Interrupted, s\<lparr>main := (main s)\<lparr>products_backup_ids :=
          products_backup_ids (main s) @ map pa_audit_id (products_pending (main s))\<rparr>\<rparr>)"
proof -
  show "\<exists>e. replicate_product_to_backup MainCommitFails now s = (Some e, s)"
    by (auto simp: replicate_product_unfold split: sum.splits)
  assume wf: "wf_main (main s)"
  have d: "distinct (map pa_audit_id (products_pending (main s)))"
    using wf by (intro products_pending_ids_distinct) (simp add: wf_main_def wf_products_def)
  obtain m' b' where loop:
    "replicate_product_rows BackupCommitFails now 0 (products_pending (main s)) (main s) (backup s) = Inr (m', b')"
    using replicate_product_rows_no_write_fault[of BackupCommitFails "products_pending (main s)" "main s" now 0 "backup s",
        OF _ _ d products_pending_ids_fresh]
    by auto
  from replicate_product_rows_Inr[OF loop]
  have "m' = (main s)\<lparr>products_backup_ids :=
          products_backup_ids (main s) @ map pa_audit_id (products_pending (main s))\<rparr>"
    by simp
  then show "replicate_product_to_backup BackupCommitFails now s =
       (Some Interrupted, s\<lparr>main := (main s)\<lparr>products_backup_ids :=
          products_backup_ids (main s) @ map pa_audit_id (products_pending (main s))\<rparr>\<rparr>)"
    using loop by (simp add: replicate_product_unfold)
qed

lemma replicate_order_item_rows_no_write_fault:
  assumes "\<And>k. f \<noteq> BackupWriteFails k" "\<And>k. f \<noteq> LedgerWriteFails k"
  shows "distinct (map oia_audit_id rows) \<Longrightarrow>
   set (map oia_audit_id rows) \<inter> set (order_items_backup_ids m) = {} \<Longrightarrow>
   \<exists>m' b'. replicate_order_item_rows f now i rows m b = Inr (m', b')"
proof (induction rows arbitrary: i m b)
  case Nil
  then show ?case by simp
next
  case (Cons r rows)
  let ?m1 = "m\<lparr>order_items_backup_ids := order_items_backup_ids m @ [oia_audit_id r]\<rparr>"
  have ins: "insert_order_items_backup_ids (oia_audit_id r) m = Inr ?m1"
    using Cons.prems by (simp add: insert_order_items_backup_ids_def)
  have "distinct (map oia_audit_id rows)" using Cons.prems by simp
  moreover have "set (map oia_audit_id rows) \<inter> set (order_items_backup_ids ?m1) = {}"
    using Cons.prems by auto
  ultimately obtain m' b' where
    "replicate_order_item_rows f now (Suc i) rows ?m1
       (insert_order_items_backup (now i) (oia_item_id r) (oia_order_id r) (oia_product_id r)
         (oia_description r) (oia_quantity r) (oia_unit_price r) b) = Inr (m', b')"
    using Cons.IH by blast
  then show ?case using ins assms by (simp add: Let_def)
qed

lemma replicate_order_item_commit_failures:
  "\<exists>e. replicate_order_item_to_backup MainCommitFails now s = (Some e, s)"
  "wf_main (main s) \<Longrightarrow>
     replicate_order_item_to_backup BackupCommitFails now s =
       (Some Interrupted, s\<lparr>main := (main s)\<lparr>order_items_backup_ids :=
          order_items_backup_ids (main s) @ map oia_audit_id (order_items_pending (main s))\<rparr>\<rparr>)"
proof -
  show "\<exists>e. replicate_order_item_to_backup MainCommitFails now s = (Some e, s)"
    by (auto simp: replicate_order_item_unfold split: sum.splits)
  assume wf: "wf_main (main s)"
  have d: "distinct (map oia_audit_id (order_items_pending (main s)))"
    using wf by (intro order_items_pending_ids_distinct) (simp add: wf_main_def wf_order_items_def)
  obtain m' b' where loop:
    "replicate_order_item_rows BackupCommitFails now 0 (order_items_pending (main s)) (main s) (backup s) = Inr (m', b')"
    using replicate_order_item_rows_no_write_fault[of BackupCommitFails "order_items_pending (main s)" "main s" now 0 "backup s",
        OF _ _ d order_items_pending_ids_fresh]
    by auto
  from replicate_order_item_rows_Inr[OF loop]
  have "m' = (main s)\<lparr>order_items_backup_ids :=
          order_items_backup_ids (main s) @ map oia_audit_id (order_items_pending (main s))\<rparr>"
    by simp
  then show "replicate_order_item_to_backup BackupCommitFails now s =
       (Some Interrupted, s\<lparr>main := (main s)\<lparr>order_items_backup_ids :=
          order_items_backup_ids (main s) @ map oia_audit_id (order_items_pending (main s))\<rparr>\<rparr>)"
    using loop by (simp add: replicate_order_item_unfold)
qed

text \<open>
  C6, as the code has it. When the backup insert or the ledger insert of the \<open>k\<close>-th
  pending row fails, when the read of the pending set fails, or when \<open>conn.commit()\<close>
  fails, the pass ends with an exception and both stores are exactly as before: no
  ledger entry is committed, every pending row is still pending, and a later pass starts
  from the same state. When it is \<open>bconn.commit()\<close> that fails, \<open>conn.commit()\<close>
  has already been done: the ledger holds the ids of all rows of the pass, the backup
  store is unchanged, and these rows are no longer pending. Both kinds.
\<close>

theorem write_failure_changes_nothing:
  "(k < length (products_pending (main s)) \<longrightarrow>
      (\<exists>e. replicate_product_to_backup (BackupWriteFails k) now s = (Some e, s)) \<and>
      (\<exists>e. replicate_product_to_backup (LedgerWriteFails k) now s = (Some e, s))) \<and>
   (\<exists>e. replicate_product_to_backup ReadFails now s = (Some e, s)) \<and>
   (\<exists>e. replicate_product_to_backup MainCommitFails now s = (Some e, s)) \<and>
   (wf_main (main s) \<longrightarrow>
      replicate_product_to_backup BackupCommitFails now s =
        (Some Interrupted, s\<lparr>main := (main s)\<lparr>products_backup_ids :=
           products_backup_ids (main s) @ map pa_audit_id (products_pending (main s))\<rparr>\<rparr>)) \<and>
   (k < length (order_items_pending (main s)) \<longrightarrow>
      (\<exists>e. replicate_order_item_to_backup (BackupWriteFails k) now s = (Some e, s)) \<and>
      (\<exists>e. replicate_order_item_to_backup (LedgerWriteFails k) now s = (Some e, s))) \<and>
   (\<exists>e. replicate_order_item_to_backup ReadFails now s = (Some e, s)) \<and>
   (\<exists>e. replicate_order_item_to_backup MainCommitFails now s = (Some e, s)) \<and>
   (wf_main (main s) \<longrightarrow>
      replicate_order_item_to_backup BackupCommitFails now s =
        (Some Interrupted, s\<lparr>main := (main s)\<lparr>order_items_backup_ids :=
           order_items_backup_ids (main s) @ map oia_audit_id (order_items_pending (main s))\<rparr>\<rparr>))"
proof (intro conjI impI)
  assume k: "k < length (products_pending (main s))"
  show "\<exists>e. replicate_product_to_backup (BackupWriteFails k) now s = (Some e, s)"
    by (rule replicate_product_write_failure(1)[OF k])
  show "\<exists>e. replicate_product_to_backup (LedgerWriteFails k) now s = (Some e, s)"
    by (rule replicate_product_write_failure(2)[OF k])
next
  show "\<exists>e. replicate_product_to_backup ReadFails now s = (Some e, s)"
    by (simp add: replicate_product_to_backup_def)
  show "\<exists>e. replicate_product_to_backup MainCommitFails now s = (Some e, s)"
    by (rule replicate_product_commit_failures(1))
next
  assume "wf_main (main s)"
  then show "replicate_product_to_backup BackupCommitFails now s =
        (Some Interrupted, s\<lparr>main := (main s)\<lparr>products_backup_ids :=
           products_backup_ids (main s) @ map pa_audit_id (products_pending (main s))\<rparr>\<rparr>)"
    by (rule replicate_product_commit_failures(2))
next
  assume k: "k < length (order_items_pending (main s))"
  show "\<exists>e. replicate_order_item_to_backup (BackupWriteFails k) now s = (Some e, s)"
    by (rule replicate_order_item_write_failure(1)[OF k])
  show "\<exists>e. replicate_order_item_to_backup (LedgerWriteFails k) now s = (Some e, s)"
    by (rule replicate_order_item_write_failure(2)[OF k])
next
  show "\<exists>e. replicate_order_item_to_backup ReadFails now s = (Some e, s)"
    by (simp add: replicate_order_item_to_backup_def)
  show "\<exists>e. replicate_order_item_to_backup MainCommitFails now s = (Some e, s)"
    by (rule replicate_order_item_commit_failures(1))
next
  assume "wf_main (main s)"
  then show "replicate_order_item_to_backup BackupCommitFails now s =
        (Some Interrupted, s\<lparr>main := (main s)\<lparr>order_items_backup_ids :=
           order_items_backup_ids (main s) @ map oia_audit_id (order_items_pending (main s))\<rparr>\<rparr>)"
    by (rule replicate_order_item_commit_failures(2))
qed

theorem write_failure_changes_nothing_witness:
  "length (products_pending (main two_pending_db)) = 2 \<and> wf_main (main two_pending_db) \<and>
   replicate_product_to_backup (BackupWriteFails 1) (\<lambda>_. 7) two_pending_db =
     (Some OperationalError, two_pending_db) \<and>
   replicate_product_to_backup (LedgerWriteFails 1) (\<lambda>_. 7) two_pending_db =
     (Some OperationalError, two_pending_db) \<and>
   replicate_product_to_backup ReadFails (\<lambda>_. 7) two_pending_db =
     (Some OperationalError, two_pending_db) \<and>
   replicate_product_to_backup MainCommitFails (\<lambda>_. 7) two_pending_db =
     (Some OperationalError, two_pending_db) \<and>
   replicate_product_to_backup BackupCommitFails (\<lambda>_. 7) two_pending_db =
     (Some Interrupted, two_pending_db\<lparr>main := two_pending_main\<lparr>products_backup_ids := [1, 2]\<rparr>\<rparr>) \<and>
   length (order_items_pending (main pending_db)) = 1 \<and> wf_main (main pending_db) \<and>
   replicate_order_item_to_backup (BackupWriteFails 0) (\<lambda>_. 7) pending_db =
     (Some OperationalError, pending_db) \<and>
   replicate_order_item_to_backup BackupCommitFails (\<lambda>_. 7) pending_db =
     (Some Interrupted, pending_db\<lparr>main := pending_main\<lparr>order_items_backup_ids := [1]\<rparr>\<rparr>)"
proof -
  have wf: "wf_main (main two_pending_db)" "wf_main (main pending_db)"
    using two_pending_db_consistent pending_db_consistent by (simp_all add: stores_consistent_def)
  have e: "fst (replicate_product_to_backup (BackupWriteFails 1) (\<lambda>_. 7) two_pending_db) = Some OperationalError"
    "fst (replicate_product_to_backup (LedgerWriteFails 1) (\<lambda>_. 7) two_pending_db) = Some OperationalError"
    "fst (replicate_product_to_backup ReadFails (\<lambda>_. 7) two_pending_db) = Some OperationalError"
    "fst (replicate_product_to_backup MainCommitFails (\<lambda>_. 7) two_pending_db) = Some OperationalError"
    "fst (replicate_order_item_to_backup (BackupWriteFails 0) (\<lambda>_. 7) pending_db) = Some OperationalError"
    by (simp_all add: eval_defs two_pending_db_def two_pending_main_def)
  have k: "1 < length (products_pending (main two_pending_db))"
    "0 < length (order_items_pending (main pending_db))"
    using two_pending_db_pending(2) pending_db_pending(2) by simp_all
  note T = write_failure_changes_nothing[of 1 two_pending_db "\<lambda>_. 7"]
  note U = write_failure_changes_nothing[of 0 pending_db "\<lambda>_. 7"]
  from T k(1) wf(1) obtain ea eb ec ed where
    a: "replicate_product_to_backup (BackupWriteFails 1) (\<lambda>_. 7) two_pending_db = (Some ea, two_pending_db)"
    and b: "replicate_product_to_backup (LedgerWriteFails 1) (\<lambda>_. 7) two_pending_db = (Some eb, two_pending_db)"
    and c: "replicate_product_to_backup ReadFails (\<lambda>_. 7) two_pending_db = (Some ec, two_pending_db)"
    and d: "replicate_product_to_backup MainCommitFails (\<lambda>_. 7) two_pending_db = (Some ed, two_pending_db)"
    and bcf: "replicate_product_to_backup BackupCommitFails (\<lambda>_. 7) two_pending_db =
        (Some Interrupted, two_pending_db\<lparr>main := (main two_pending_db)\<lparr>products_backup_ids :=
           products_backup_ids (main two_pending_db) @
           map pa_audit_id (products_pending (main two_pending_db))\<rparr>\<rparr>)"
    by blast
  from U k(2) wf(2) obtain ei where
    i: "replicate_order_item_to_backup (BackupWriteFails 0) (\<lambda>_. 7) pending_db = (Some ei, pending_db)"
    and ibcf: "replicate_order_item_to_backup BackupCommitFails (\<lambda>_. 7) pending_db =
        (Some Interrupted, pending_db\<lparr>main := (main pending_db)\<lparr>order_items_backup_ids :=
           order_items_backup_ids (main pending_db) @
           map oia_audit_id (order_items_pending (main pending_db))\<rparr>\<rparr>)"
    by blast
  have es: "ea = OperationalError" "eb = OperationalError" "ec = OperationalError"
    "ed = OperationalError" "ei = OperationalError"
    using e a b c d i by simp_all
  have m1: "(main two_pending_db)\<lparr>products_backup_ids :=
           products_backup_ids (main two_pending_db) @
           map pa_audit_id (products_pending (main two_pending_db))\<rparr> =
          two_pending_main\<lparr>products_backup_ids := [1, 2]\<rparr>"
    by (simp add: products_pending_def two_pending_db_def two_pending_main_def init_main_def)
  have m2: "(main pending_db)\<lparr>order_items_backup_ids :=
           order_items_backup_ids (main pending_db) @
           map oia_audit_id (order_items_pending (main pending_db))\<rparr> =
          pending_main\<lparr>order_items_backup_ids := [1]\<rparr>"
    by (simp add: order_items_pending_def pending_db_def pending_main_def)
  show ?thesis
    using a b c d i es bcf[unfolded m1] ibcf[unfolded m2] wf two_pending_db_pending(2)
      pending_db_pending(2)
    by simp
qed

text \<open>
  C6 fails as stated. In \<open>pending_db\<close> the backup write of the product pass fails at
  \<open>bconn.commit()\<close>. The pass ends with an exception, the backup store has no record,
  and yet the ledger entry of the row is committed and the row is no longer pending.
\<close>

theorem backup_commit_failure_marks_ledger:
  "replicate_product_to_backup BackupCommitFails (clock (env_at 5)) pending_db =
     (Some Interrupted, pending_db\<lparr>main := pending_main\<lparr>products_backup_ids := [1]\<rparr>\<rparr>) \<and>
   length (products_pending (main pending_db)) = 1 \<and>
   products_pending (main (pending_db\<lparr>main := pending_main\<lparr>products_backup_ids := [1]\<rparr>\<rparr>)) = [] \<and>
   products_backup (backup (pending_db\<lparr>main := pending_main\<lparr>products_backup_ids := [1]\<rparr>\<rparr>)) = []"
  by (simp add: eval_defs products_pending_def)

section \<open>An interrupted pass and its retry, from any well-formed state\<close>

lemma replicate_product_retry:
  fixes f now now' s
  defines "s1 \<equiv> snd (replicate_product_to_backup f now s)"
  defines "s2 \<equiv> snd (replicate_product_to_backup NoFault now' s1)"
  assumes wf: "wf_main (main s)"
  shows "fst (replicate_product_to_backup NoFault now' s1) = None"
    and "products_pending (main s2) = []"
    and "commits_together f \<Longrightarrow>
           \<exists>new. products_backup (backup s2) = products_backup (backup s) @ new \<and>
             map pb_snapshot new = map pa_snapshot (products_pending (main s))"
    and "\<not> commits_together f \<Longrightarrow> products_backup (backup s2) = products_backup (backup s)"
proof -
  have wf1: "wf_main (main s1)"
    unfolding s1_def using wf by (rule replicate_product_stores(1))
  then show ok: "fst (replicate_product_to_backup NoFault now' s1) = None"
    by (intro replicate_product_NoFault) (simp add: wf_main_def wf_products_def)
  have pass2: "replicate_product_to_backup NoFault now' s1 = (None, s2)"
    using ok by (simp add: s2_def prod_eq_iff)
  from replicate_product_success(1)[OF pass2] show "products_pending (main s2) = []"
    by (simp add: products_pending_after)
  {
    assume ct: "commits_together f"
    show "\<exists>new. products_backup (backup s2) = products_backup (backup s) @ new \<and>
             map pb_snapshot new = map pa_snapshot (products_pending (main s))"
    proof (cases f now s rule: replicate_product_cases)
      case unchanged
      then have "s1 = s" by (simp add: s1_def)
      with pass2 have "replicate_product_to_backup NoFault now' s = (None, s2)" by simp
      from replicate_product_success(2)[OF this] show ?thesis by auto
    next
      case (committed new)
      have "products_pending (main s1) = []"
        unfolding s1_def committed(2) by (rule products_pending_after)
      then have "s2 = s1" unfolding s2_def by (rule replicate_product_nothing_pending)
      then show ?thesis using committed(3,4) by (auto simp: s1_def)
    next
      case half
      then show ?thesis using ct by (simp add: commits_together_def)
    qed
  }
  {
    assume "\<not> commits_together f"
    then have f: "f = BackupCommitFails" by (simp add: commits_together_def)
    have s1: "s1 = s\<lparr>main := (main s)\<lparr>products_backup_ids :=
          products_backup_ids (main s) @ map pa_audit_id (products_pending (main s))\<rparr>\<rparr>"
      unfolding s1_def f using replicate_product_commit_failures(2)[OF wf, of now] by simp
    have "products_pending (main s1) = []"
      unfolding s1 using products_pending_after[of "main s"] by simp
    then have "s2 = s1" unfolding s2_def by (rule replicate_product_nothing_pending)
    then show "products_backup (backup s2) = products_backup (backup s)"
      by (simp add: s1)
  }
qed

lemma replicate_order_item_retry:
  fixes f now now' s
  defines "s1 \<equiv> snd (replicate_order_item_to_backup f now s)"
  defines "s2 \<equiv> snd (replicate_order_item_to_backup NoFault now' s1)"
  assumes wf: "wf_main (main s)"
  shows "fst (replicate_order_item_to_backup NoFault now' s1) = None"
    and "order_items_pending (main s2) = []"
    and "commits_together f \<Longrightarrow>
           \<exists>new. order_items_backup (backup s2) = order_items_backup (backup s) @ new \<and>
             map oib_snapshot new = map oia_snapshot (order_items_pending (main s))"
    and "\<not> commits_together f \<Longrightarrow> order_items_backup (backup s2) = order_items_backup (backup s)"
proof -
  have wf1: "wf_main (main s1)"
    unfolding s1_def using wf by (rule replicate_order_item_stores(1))
  then show ok: "fst (replicate_order_item_to_backup NoFault now' s1) = None"
    by (intro replicate_order_item_NoFault) (simp add: wf_main_def wf_order_items_def)
  have pass2: "replicate_order_item_to_backup NoFault now' s1 = (None, s2)"
    using ok by (simp add: s2_def prod_eq_iff)
  from replicate_order_item_success(1)[OF pass2] show "order_items_pending (main s2) = []"
    by (simp add: order_items_pending_after)
  {
    assume ct: "commits_together f"
    show "\<exists>new. order_items_backup (backup s2) = order_items_backup (backup s) @ new \<and>
             map oib_snapshot new = map oia_snapshot (order_items_pending (main s))"
    proof (cases f now s rule: replicate_order_item_cases)
      case unchanged
      then have "s1 = s" by (simp add: s1_def)
      with pass2 have "replicate_order_item_to_backup NoFault now' s = (None, s2)" by simp
      from replicate_order_item_success(2)[OF this] show ?thesis by auto
    next
      case (committed new)
      have "order_items_pending (main s1) = []"
        unfolding s1_def committed(2) by (rule order_items_pending_after)
      then have "s2 = s1" unfolding s2_def by (rule replicate_order_item_nothing_pending)
      then show ?thesis using committed(3,4) by (auto simp: s1_def)
    next
      case half
      then show ?thesis using ct by (simp add: commits_together_def)
    qed
  }
  {
    assume "\<not> commits_together f"
    then have f: "f = BackupCommitFails" by (simp add: commits_together_def)
    have s1: "s1 = s\<lparr>main := (main s)\<lparr>order_items_backup_ids :=
          order_items_backup_ids (main s) @ map oia_audit_id (order_items_pending (main s))\<rparr>\<rparr>"
      unfolding s1_def f using replicate_order_item_commit_failures(2)[OF wf, of now] by simp
    have "order_items_pending (main s1) = []"
      unfolding s1 using order_items_pending_after[of "main s"] by simp
    then have "s2 = s1" unfolding s2_def by (rule replicate_order_item_nothing_pending)
    then show "order_items_backup (backup s2) = order_items_backup (backup s)"
      by (simp add: s1)
  }
qed


text \<open>
  C7, as the code has it. Let a pass of either kind start in any well-formed state and
  meet any fault, and let a pass without fault follow it. The second pass returns
  normally and leaves nothing pending. If the first pass was not stopped between its two
  commits, the two passes together have appended exactly one backup record for each row
  that was pending at the start, with the fields of that row: none twice, none lost. If
  the first pass was stopped between its two commits, the two passes have appended no
  backup record at all, and the rows are ledgered without one. Whatever the fault, a
  backup store in which every record belongs to a ledgered audit row of its own stays
  so.
\<close>

theorem interrupted_pass_recovery:
  "wf_main (main s) \<longrightarrow>
     fst (replicate_product_to_backup NoFault now'
            (snd (replicate_product_to_backup f now s))) = None \<and>
     products_pending (main (snd (replicate_product_to_backup NoFault now'
            (snd (replicate_product_to_backup f now s))))) = [] \<and>
     (commits_together f \<longrightarrow>
        (\<exists>new. products_backup (backup (snd (replicate_product_to_backup NoFault now'
            (snd (replicate_product_to_backup f now s))))) = products_backup (backup s) @ new \<and>
          map pb_snapshot new = map pa_snapshot (products_pending (main s)))) \<and>
     (\<not> commits_together f \<longrightarrow>
        products_backup (backup (snd (replicate_product_to_backup NoFault now'
            (snd (replicate_product_to_backup f now s))))) = products_backup (backup s)) \<and>
     (stores_no_dup s \<longrightarrow>
        stores_no_dup (snd (replicate_product_to_backup NoFault now'
            (snd (replicate_product_to_backup f now s))))) \<and>
     fst (replicate_order_item_to_backup NoFault now'
            (snd (replicate_order_item_to_backup f now s))) = None \<and>
     order_items_pending (main (snd (replicate_order_item_to_backup NoFault now'
            (snd (replicate_order_item_to_backup f now s))))) = [] \<and>
     (commits_together f \<longrightarrow>
        (\<exists>new. order_items_backup (backup (snd (replicate_order_item_to_backup NoFault now'
            (snd (replicate_order_item_to_backup f now s))))) = order_items_backup (backup s) @ new \<and>
          map oib_snapshot new = map oia_snapshot (order_items_pending (main s)))) \<and>
     (\<not> commits_together f \<longrightarrow>
        order_items_backup (backup (snd (replicate_order_item_to_backup NoFault now'
            (snd (replicate_order_item_to_backup f now s))))) = order_items_backup (backup s)) \<and>
     (stores_no_dup s \<longrightarrow>
        stores_no_dup (snd (replicate_order_item_to_backup NoFault now'
            (snd (replicate_order_item_to_backup f now s)))))"
proof (intro impI conjI)
  assume wf: "wf_main (main s)"
  note p = replicate_product_retry[where s = s and f = f and now = now and now' = now', OF wf]
  note i = replicate_order_item_retry[where s = s and f = f and now = now and now' = now', OF wf]
  show "fst (replicate_product_to_backup NoFault now'
            (snd (replicate_product_to_backup f now s))) = None"
    by (rule p(1))
  show "products_pending (main (snd (replicate_product_to_backup NoFault now'
            (snd (replicate_product_to_backup f now s))))) = []"
    by (rule p(2))
  show "fst (replicate_order_item_to_backup NoFault now'
            (snd (replicate_order_item_to_backup f now s))) = None"
    by (rule i(1))
  show "order_items_pending (main (snd (replicate_order_item_to_backup NoFault now'
            (snd (replicate_order_item_to_backup f now s))))) = []"
    by (rule i(2))
  {
    assume ct: "commits_together f"
    show "\<exists>new. products_backup (backup (snd (replicate_product_to_backup NoFault now'
            (snd (replicate_product_to_backup f now s))))) = products_backup (backup s) @ new \<and>
          map pb_snapshot new = map pa_snapshot (products_pending (main s))"
      by (rule p(3)[OF ct])
    show "\<exists>new. order_items_backup (backup (snd (replicate_order_item_to_backup NoFault now'
            (snd (replicate_order_item_to_backup f now s))))) = order_items_backup (backup s) @ new \<and>
          map oib_snapshot new = map oia_snapshot (order_items_pending (main s))"
      by (rule i(3)[OF ct])
  }
  {
    assume nct: "\<not> commits_together f"
    show "products_backup (backup (snd (replicate_product_to_backup NoFault now'
            (snd (replicate_product_to_backup f now s))))) = products_backup (backup s)"
      by (rule p(4)[OF nct])
    show "order_items_backup (backup (snd (replicate_order_item_to_backup NoFault now'
            (snd (replicate_order_item_to_backup f now s))))) = order_items_backup (backup s)"
      by (rule i(4)[OF nct])
  }
  {
    assume nd: "stores_no_dup s"
    show "stores_no_dup (snd (replicate_product_to_backup NoFault now'
            (snd (replicate_product_to_backup f now s))))"
      by (intro replicate_product_stores(3) nd)
    show "stores_no_dup (snd (replicate_order_item_to_backup NoFault now'
            (snd (replicate_order_item_to_backup f now s))))"
      by (intro replicate_order_item_stores(3) nd)
  }
qed


theorem interrupted_pass_recovery_witness:
  "wf_main (main two_pending_db) \<and> stores_no_dup two_pending_db \<and>
   commits_together (BackupWriteFails 1) \<and> \<not> commits_together BackupCommitFails \<and>
   length (products_pending (main two_pending_db)) = 2 \<and>
   map pb_snapshot (products_backup (backup (snd (replicate_product_to_backup NoFault (\<lambda>_. 7)
      (snd (replicate_product_to_backup (BackupWriteFails 1) (\<lambda>_. 5) two_pending_db)))))) =
     [(1, ''Widget'', Some ''W-1'', 999 / 100), (2, ''Gadget'', Some ''G-1'', 5)] \<and>
   stores_no_dup (snd (replicate_product_to_backup NoFault (\<lambda>_. 7)
      (snd (replicate_product_to_backup (BackupWriteFails 1) (\<lambda>_. 5) two_pending_db)))) \<and>
   products_backup (backup (snd (replicate_product_to_backup NoFault (\<lambda>_. 7)
      (snd (replicate_product_to_backup BackupCommitFails (\<lambda>_. 5) two_pending_db))))) = [] \<and>
   wf_main (main pending_db) \<and> commits_together (LedgerWriteFails 0) \<and>
   map oib_snapshot (order_items_backup (backup (snd (replicate_order_item_to_backup NoFault (\<lambda>_. 7)
      (snd (replicate_order_item_to_backup (LedgerWriteFails 0) (\<lambda>_. 5) pending_db)))))) =
     [(1, 1, None, ''Cable'', 10, 160)]"
proof -
  have wf: "wf_main (main two_pending_db)" "wf_main (main pending_db)"
    using two_pending_db_consistent pending_db_consistent
    by (simp_all add: stores_consistent_def)
  have nd: "stores_no_dup two_pending_db"
    using two_pending_db_consistent by (simp add: stores_consistent_iff)
  have ct: "commits_together (BackupWriteFails 1)" "\<not> commits_together BackupCommitFails"
    "commits_together (LedgerWriteFails 0)"
    by (simp_all add: commits_together_def)
  note A = interrupted_pass_recovery[where s = two_pending_db and now' = "\<lambda>_. 7"
      and f = "BackupWriteFails 1" and now = "\<lambda>_. 5"]
  note B = interrupted_pass_recovery[where s = two_pending_db and now' = "\<lambda>_. 7"
      and f = BackupCommitFails and now = "\<lambda>_. 5"]
  note C = interrupted_pass_recovery[where s = pending_db and now' = "\<lambda>_. 7"
      and f = "LedgerWriteFails 0" and now = "\<lambda>_. 5"]
  from A wf(1) ct(1) nd obtain new where
    a: "products_backup (backup (snd (replicate_product_to_backup NoFault (\<lambda>_. 7)
      (snd (replicate_product_to_backup (BackupWriteFails 1) (\<lambda>_. 5) two_pending_db))))) =
        products_backup (backup two_pending_db) @ new"
    "map pb_snapshot new = map pa_snapshot (products_pending (main two_pending_db))"
    and a_nd: "stores_no_dup (snd (replicate_product_to_backup NoFault (\<lambda>_. 7)
      (snd (replicate_product_to_backup (BackupWriteFails 1) (\<lambda>_. 5) two_pending_db))))"
    by blast
  from B wf(1) ct(2) have
    b: "products_backup (backup (snd (replicate_product_to_backup NoFault (\<lambda>_. 7)
      (snd (replicate_product_to_backup BackupCommitFails (\<lambda>_. 5) two_pending_db))))) =
        products_backup (backup two_pending_db)"
    by blast
  from C wf(2) ct(3) obtain inew where
    c: "order_items_backup (backup (snd (replicate_order_item_to_backup NoFault (\<lambda>_. 7)
      (snd (replicate_order_item_to_backup (LedgerWriteFails 0) (\<lambda>_. 5) pending_db))))) =
        order_items_backup (backup pending_db) @ inew"
    "map oib_snapshot inew = map oia_snapshot (order_items_pending (main pending_db))"
    by blast
  have ev: "products_backup (backup two_pending_db) = []"
    "map pa_snapshot (products_pending (main two_pending_db)) =
       [(1, ''Widget'', Some ''W-1'', 999 / 100), (2, ''Gadget'', Some ''G-1'', 5)]"
    "order_items_backup (backup pending_db) = []"
    "map oia_snapshot (order_items_pending (main pending_db)) = [(1, 1, None, ''Cable'', 10, 160)]"
    by (simp_all add: products_pending_def order_items_pending_def two_pending_db_def
        two_pending_main_def init_main_def init_backup_def pending_db_def pending_main_def
        pa_snapshot_def oia_snapshot_def)
  have a': "map pb_snapshot (products_backup (backup (snd (replicate_product_to_backup NoFault (\<lambda>_. 7)
      (snd (replicate_product_to_backup (BackupWriteFails 1) (\<lambda>_. 5) two_pending_db)))))) =
     [(1, ''Widget'', Some ''W-1'', 999 / 100), (2, ''Gadget'', Some ''G-1'', 5)]"
    unfolding a(1) ev(1) by (simp add: a(2) ev(2))
  have b': "products_backup (backup (snd (replicate_product_to_backup NoFault (\<lambda>_. 7)
      (snd (replicate_product_to_backup BackupCommitFails (\<lambda>_. 5) two_pending_db))))) = []"
    unfolding b ev(1) by (rule refl)
  have c': "map oib_snapshot (order_items_backup (backup (snd (replicate_order_item_to_backup NoFault (\<lambda>_. 7)
      (snd (replicate_order_item_to_backup (LedgerWriteFails 0) (\<lambda>_. 5) pending_db)))))) =
     [(1, 1, None, ''Cable'', 10, 160)]"
    unfolding c(1) ev(3) by (simp add: c(2) ev(4))
  show ?thesis
    using wf nd ct two_pending_db_pending(2) a_nd a' b' c'
    by simp
qed

section \<open>Every ledger entry and every backup record comes from a pass\<close>

lemma products_written_by_pass_cong:
  assumes "products_audit (main t) = products_audit (main s')"
    "products_backup_ids (main t) = products_backup_ids (main s')"
    "products_backup (backup t) = products_backup (backup s')"
  shows "products_written_by_pass f l b t = products_written_by_pass f l b s'"
  using assms by (simp add: products_written_by_pass_def)

lemma replicate_product_written:
  "products_written_by_pass f (products_backup_ids (main s)) (products_backup (backup s))
     (snd (replicate_product_to_backup f now s))"
proof (cases f now s rule: replicate_product_cases)
  case unchanged
  then show ?thesis by (simp add: products_written_by_pass_def)
next
  case (committed new)
  have f: "f \<noteq> BackupCommitFails"
    using committed(1) by (auto simp: replicate_product_unfold split: sum.splits)
  show ?thesis
    unfolding products_written_by_pass_def committed(2,3)
    using f committed(4) by (simp add: products_pending_def)
next
  case half
  then show ?thesis
    unfolding products_written_by_pass_def by (simp add: products_pending_def)
qed

lemma replicate_product_order_items_same:
  "order_items_audit (main (snd (replicate_product_to_backup f now s))) = order_items_audit (main s)"
  "order_items_backup_ids (main (snd (replicate_product_to_backup f now s))) = order_items_backup_ids (main s)"
  "order_items_backup (backup (snd (replicate_product_to_backup f now s))) = order_items_backup (backup s)"
  using replicate_product_frame[of f now s] by auto

lemma replicate_order_item_audit_same:
  "order_items_audit (main (snd (replicate_order_item_to_backup f now s))) = order_items_audit (main s)"
  using replicate_order_item_frame[of f now s] by auto

lemma order_items_written_by_pass_cong:
  assumes "order_items_audit (main t) = order_items_audit (main s')"
    "order_items_backup_ids (main t) = order_items_backup_ids (main s')"
    "order_items_backup (backup t) = order_items_backup (backup s')"
  shows "order_items_written_by_pass f l b t = order_items_written_by_pass f l b s'"
  using assms by (simp add: order_items_written_by_pass_def)

lemma replicate_order_item_written:
  "order_items_written_by_pass f (order_items_backup_ids (main s)) (order_items_backup (backup s))
     (snd (replicate_order_item_to_backup f now s))"
proof (cases f now s rule: replicate_order_item_cases)
  case unchanged
  then show ?thesis by (simp add: order_items_written_by_pass_def)
next
  case (committed new)
  have f: "f \<noteq> BackupCommitFails"
    using committed(1) by (auto simp: replicate_order_item_unfold split: sum.splits)
  show ?thesis
    unfolding order_items_written_by_pass_def committed(2,3)
    using f committed(4) by (simp add: order_items_pending_def)
next
  case half
  then show ?thesis
    unfolding order_items_written_by_pass_def by (simp add: order_items_pending_def)
qed



lemma dashboard_written:
  "products_written_by_pass (product_fault e) (products_backup_ids (main s))
     (products_backup (backup s)) (snd (dashboard e s))"
  "order_items_written_by_pass (order_item_fault e) (order_items_backup_ids (main s))
     (order_items_backup (backup s)) (snd (dashboard e s))"
proof -
  let ?s1 = "snd (replicate_product_to_backup (product_fault e) (clock e) s)"
  let ?s2 = "snd (replicate_order_item_to_backup (order_item_fault e) (clock e) ?s1)"
  have p1: "products_written_by_pass (product_fault e) (products_backup_ids (main s))
     (products_backup (backup s)) ?s1"
    by (rule replicate_product_written)
  have p2: "products_written_by_pass (product_fault e) (products_backup_ids (main s))
     (products_backup (backup s)) ?s2"
    using p1 by (simp add: products_written_by_pass_cong[OF replicate_order_item_products_same])
  show "products_written_by_pass (product_fault e) (products_backup_ids (main s))
     (products_backup (backup s)) (snd (dashboard e s))"
    using p1 p2 by (simp add: dashboard_snd)
  have i1: "order_items_written_by_pass (order_item_fault e) (order_items_backup_ids (main s))
     (order_items_backup (backup s)) ?s1"
    by (simp add: order_items_written_by_pass_def replicate_product_order_items_same)
  have "order_items_written_by_pass (order_item_fault e) (order_items_backup_ids (main ?s1))
     (order_items_backup (backup ?s1)) ?s2"
    by (rule replicate_order_item_written)
  then have i2: "order_items_written_by_pass (order_item_fault e) (order_items_backup_ids (main s))
     (order_items_backup (backup s)) ?s2"
    by (simp add: replicate_product_order_items_same)
  show "order_items_written_by_pass (order_item_fault e) (order_items_backup_ids (main s))
     (order_items_backup (backup s)) (snd (dashboard e s))"
    using i1 i2 by (simp add: dashboard_snd)
qed

lemma unchanged_written:
  assumes "products_backup_ids (main t) = products_backup_ids (main s)"
    "products_backup (backup t) = products_backup (backup s)"
  shows "products_written_by_pass f (products_backup_ids (main s)) (products_backup (backup s)) t"
  using assms by (simp add: products_written_by_pass_def)

lemma unchanged_written_items:
  assumes "order_items_backup_ids (main t) = order_items_backup_ids (main s)"
    "order_items_backup (backup t) = order_items_backup (backup s)"
  shows "order_items_written_by_pass f (order_items_backup_ids (main s)) (order_items_backup (backup s)) t"
  using assms by (simp add: order_items_written_by_pass_def)

lemma add_product_written:
  "products_written_by_pass (product_fault e) (products_backup_ids (main s))
     (products_backup (backup s)) (snd (add_product e n sku price s))"
  "order_items_written_by_pass (order_item_fault e) (order_items_backup_ids (main s))
     (order_items_backup (backup s)) (snd (add_product e n sku price s))"
proof -
  let ?i = "insert_products (capture_fault e) (clock e 0) n (Some sku) price (main s)"
  have inl: "snd (add_product e n sku price s) = s" if "?i = Inl a" for a
    using that by (simp add: add_product_def)
  have inr: "snd (add_product e n sku price s) =
      snd (replicate_product_to_backup (product_fault e) (clock e) (s\<lparr>main := m'\<rparr>))"
    if "?i = Inr m'" for m'
    using that by (simp add: add_product_def)
  have l: "products_backup_ids m' = products_backup_ids (main s) \<and>
      order_items_backup_ids m' = order_items_backup_ids (main s)" if "?i = Inr m'" for m'
    using insert_products_ledgers[OF that] by simp
  show "products_written_by_pass (product_fault e) (products_backup_ids (main s))
     (products_backup (backup s)) (snd (add_product e n sku price s))"
  proof (cases ?i)
    case (Inl a)
    show ?thesis unfolding inl[OF Inl] by (simp add: unchanged_written)
  next
    case (Inr m')
    have "products_written_by_pass (product_fault e) (products_backup_ids (main (s\<lparr>main := m'\<rparr>)))
       (products_backup (backup (s\<lparr>main := m'\<rparr>)))
       (snd (replicate_product_to_backup (product_fault e) (clock e) (s\<lparr>main := m'\<rparr>)))"
      by (rule replicate_product_written)
    then show ?thesis unfolding inr[OF Inr] using l[OF Inr] by simp
  qed
  show "order_items_written_by_pass (order_item_fault e) (order_items_backup_ids (main s))
     (order_items_backup (backup s)) (snd (add_product e n sku price s))"
  proof (cases ?i)
    case (Inl a)
    show ?thesis unfolding inl[OF Inl] by (simp add: unchanged_written_items)
  next
    case (Inr m')
    show ?thesis unfolding inr[OF Inr] using l[OF Inr]
      by (simp add: order_items_written_by_pass_def replicate_product_order_items_same)
  qed
qed

lemma add_item_written:
  "products_written_by_pass (product_fault e) (products_backup_ids (main s))
     (products_backup (backup s)) (snd (add_item e oid d q price s))"
  "order_items_written_by_pass (order_item_fault e) (order_items_backup_ids (main s))
     (order_items_backup (backup s)) (snd (add_item e oid d q price s))"
proof -
  let ?i = "insert_purchase_order_items (capture_fault e) (clock e 0) oid d q price (main s)"
  have inl: "snd (add_item e oid d q price s) = s" if "?i = Inl a" for a
    using that by (simp add: add_item_def)
  have inr: "snd (add_item e oid d q price s) =
      snd (replicate_order_item_to_backup (order_item_fault e) (clock e) (s\<lparr>main := m'\<rparr>))"
    if "?i = Inr m'" for m'
    using that by (simp add: add_item_def)
  have l: "products_backup_ids m' = products_backup_ids (main s) \<and>
      order_items_backup_ids m' = order_items_backup_ids (main s)" if "?i = Inr m'" for m'
    using insert_purchase_order_items_ledgers[OF that] by simp
  show "order_items_written_by_pass (order_item_fault e) (order_items_backup_ids (main s))
     (order_items_backup (backup s)) (snd (add_item e oid d q price s))"
  proof (cases ?i)
    case (Inl a)
    show ?thesis unfolding inl[OF Inl] by (simp add: unchanged_written_items)
  next
    case (Inr m')
    have "order_items_written_by_pass (order_item_fault e) (order_items_backup_ids (main (s\<lparr>main := m'\<rparr>)))
       (order_items_backup (backup (s\<lparr>main := m'\<rparr>)))
       (snd (replicate_order_item_to_backup (order_item_fault e) (clock e) (s\<lparr>main := m'\<rparr>)))"
      by (rule replicate_order_item_written)
    then show ?thesis unfolding inr[OF Inr] using l[OF Inr] by simp
  qed
  show "products_written_by_pass (product_fault e) (products_backup_ids (main s))
     (products_backup (backup s)) (snd (add_item e oid d q price s))"
  proof (cases ?i)
    case (Inl a)
    show ?thesis unfolding inl[OF Inl] by (simp add: unchanged_written)
  next
    case (Inr m')
    show ?thesis unfolding inr[OF Inr] using l[OF Inr]
      by (simp add: products_written_by_pass_def replicate_order_item_products_same)
  qed
qed

lemma seed_demo_written:
  "products_written_by_pass (product_fault e) [] (products_backup (backup s)) (snd (seed_demo e s))"
  "order_items_written_by_pass (order_item_fault e) [] (order_items_backup (backup s)) (snd (seed_demo e s))"
proof -
  let ?i = "seed_inserts e (seed_wipe (main s))"
  have u: "products_backup_ids m1 = [] \<and> order_items_backup_ids m1 = []" if "?i = Inr m1" for m1
    using unledgered_seed_inserts[OF unledgered_seed_wipe that] by (simp add: unledgered_def)
  show "products_written_by_pass (product_fault e) [] (products_backup (backup s)) (snd (seed_demo e s))"
  proof (cases ?i)
    case (Inl a)
    then show ?thesis
      by (simp add: seed_demo_dashboard products_written_by_pass_def seed_wipe_def)
  next
    case (Inr m1)
    show ?thesis
      using Inr u[OF Inr] dashboard_written(1)[of e "s\<lparr>main := m1\<rparr>"]
      by (simp add: seed_demo_dashboard)
  qed
  show "order_items_written_by_pass (order_item_fault e) [] (order_items_backup (backup s)) (snd (seed_demo e s))"
  proof (cases ?i)
    case (Inl a)
    then show ?thesis
      by (simp add: seed_demo_dashboard order_items_written_by_pass_def seed_wipe_def)
  next
    case (Inr m1)
    show ?thesis
      using Inr u[OF Inr] dashboard_written(2)[of e "s\<lparr>main := m1\<rparr>"]
      by (simp add: seed_demo_dashboard)
  qed
qed

lemma handle_written:
  "products_written_by_pass (product_fault e)
     (if r = SeedDemo then [] else products_backup_ids (main s))
     (products_backup (backup s)) (snd (handle e r s))"
  "order_items_written_by_pass (order_item_fault e)
     (if r = SeedDemo then [] else order_items_backup_ids (main s))
     (order_items_backup (backup s)) (snd (handle e r s))"
proof -
  show "products_written_by_pass (product_fault e)
     (if r = SeedDemo then [] else products_backup_ids (main s))
     (products_backup (backup s)) (snd (handle e r s))"
  proof (cases "runs_replication r")
    case True
    then show ?thesis
      by (cases r) (simp_all add: seed_demo_written dashboard_written add_product_written
          add_item_written)
  next
    case False
    then have "r \<noteq> SeedDemo" by auto
    then show ?thesis
      using no_replication_same[OF False, of e s] by (simp add: unchanged_written)
  qed
  show "order_items_written_by_pass (order_item_fault e)
     (if r = SeedDemo then [] else order_items_backup_ids (main s))
     (order_items_backup (backup s)) (snd (handle e r s))"
  proof (cases "runs_replication r")
    case True
    then show ?thesis
      by (cases r) (simp_all add: seed_demo_written dashboard_written add_product_written
          add_item_written)
  next
    case False
    then have "r \<noteq> SeedDemo" by auto
    then show ?thesis
      using no_replication_same[OF False, of e s] by (simp add: unchanged_written_items)
  qed
qed

text \<open>
  C5, as the code has it. Every request other than \<open>seed_demo\<close> leaves the rows of
  both ledger tables in place and at most appends to them. Every request, \<open>seed_demo\<close>
  included, leaves the rows of both backup tables in place and at most appends to them.
  A request whose handler calls no replication routine changes neither a ledger table
  nor the backup database. \<open>seed_demo\<close> first empties both ledger tables itself; after
  that it only appends to them, through the two passes it runs.
  What a request adds is what a pass of the kind writes and nothing else: after any
  request, with any faults, each ledger table and its backup table are either as they
  were before the request (the ledger emptied, for \<open>seed_demo\<close>), or the ledger has got
  the ids of exactly the audit rows of its kind that it did not hold, in audit order,
  and the backup table has got one record for each of those rows, in the same order and
  with the fields of the row (or no record, when the pass was stopped between its two
  commits).
\<close>

theorem ledger_and_backup_writers:
  "(r \<noteq> SeedDemo \<longrightarrow> ledgers_grow s (snd (handle e r s))) \<and>
   backup_grows s (snd (handle e r s)) \<and>
   (\<not> runs_replication r \<longrightarrow>
      products_backup_ids (main (snd (handle e r s))) = products_backup_ids (main s) \<and>
      order_items_backup_ids (main (snd (handle e r s))) = order_items_backup_ids (main s) \<and>
      backup (snd (handle e r s)) = backup s) \<and>
   products_backup_ids (seed_wipe (main s)) = [] \<and>
   order_items_backup_ids (seed_wipe (main s)) = [] \<and>
   ledgers_grow (s\<lparr>main := seed_wipe (main s)\<rparr>) (snd (handle e SeedDemo s)) \<and>
   products_written_by_pass (product_fault e)
     (if r = SeedDemo then [] else products_backup_ids (main s))
     (products_backup (backup s)) (snd (handle e r s)) \<and>
   order_items_written_by_pass (order_item_fault e)
     (if r = SeedDemo then [] else order_items_backup_ids (main s))
     (order_items_backup (backup s)) (snd (handle e r s))"
  using handle_grows[where r = r and s = s and e = e] no_replication_same[where r = r and s = s and e = e]
    seed_demo_grows(1)[where s = s and e = e]
    handle_written[where r = r and s = s and e = e]
  by (simp add: seed_wipe_def)

theorem ledger_and_backup_writers_witness:
  "AddOrder 1 None \<noteq> SeedDemo \<and> \<not> runs_replication (AddOrder 1 None) \<and>
   ledgers_grow pending_db (snd (handle (env_at 7) (AddOrder 1 None) pending_db)) \<and>
   backup (snd (handle (env_at 7) (AddOrder 1 None) pending_db)) = backup pending_db \<and>
   purchase_orders (main (snd (handle (env_at 7) (AddOrder 1 None) pending_db))) \<noteq>
     purchase_orders (main pending_db) \<and>
   Dashboard \<noteq> SeedDemo \<and> runs_replication Dashboard \<and>
   products_backup_ids (main pending_db) = [] \<and>
   products_backup (backup pending_db) = [] \<and>
   map pa_audit_id (products_audit (main pending_db)) = [1] \<and>
   ledgers_grow pending_db (snd (handle (env_at 7) Dashboard pending_db)) \<and>
   products_written_by_pass NoFault [] [] (snd (handle (env_at 7) Dashboard pending_db)) \<and>
   order_items_written_by_pass NoFault [] [] (snd (handle (env_at 7) Dashboard pending_db)) \<and>
   products_backup_ids (main (snd (handle (env_at 7) Dashboard pending_db))) = [1] \<and>
   map pb_snapshot (products_backup (backup (snd (handle (env_at 7) Dashboard pending_db)))) =
     map pa_snapshot (products_audit (main pending_db)) \<and>
   order_items_backup_ids (main (snd (handle (env_at 7) Dashboard pending_db))) = [1] \<and>
   map oib_snapshot (order_items_backup (backup (snd (handle (env_at 7) Dashboard pending_db)))) =
     map oia_snapshot (order_items_audit (main pending_db))"
proof -
  note A = ledger_and_backup_writers[where r = "AddOrder 1 None" and s = pending_db and e = "env_at 7"]
  note D = ledger_and_backup_writers[where r = Dashboard and s = pending_db and e = "env_at 7"]
  have f: "product_fault (env_at 7) = NoFault" "order_item_fault (env_at 7) = NoFault"
    by (simp_all add: env_at_def)
  have p: "products_backup_ids (main pending_db) = []" "products_backup (backup pending_db) = []"
    "order_items_backup_ids (main pending_db) = []" "order_items_backup (backup pending_db) = []"
    "map pa_audit_id (products_audit (main pending_db)) = [1]"
    by (simp_all add: pending_db_def pending_main_def init_backup_def)
  have a: "ledgers_grow pending_db (snd (handle (env_at 7) (AddOrder 1 None) pending_db))"
    "backup (snd (handle (env_at 7) (AddOrder 1 None) pending_db)) = backup pending_db"
    using A by simp_all
  have a2: "purchase_orders (main (snd (handle (env_at 7) (AddOrder 1 None) pending_db))) \<noteq>
     purchase_orders (main pending_db)"
    by (simp add: eval_defs)
  have d: "ledgers_grow pending_db (snd (handle (env_at 7) Dashboard pending_db))"
    "products_written_by_pass NoFault [] [] (snd (handle (env_at 7) Dashboard pending_db))"
    "order_items_written_by_pass NoFault [] [] (snd (handle (env_at 7) Dashboard pending_db))"
    using D unfolding f p by simp_all
  have r: "products_backup_ids (main (snd (handle (env_at 7) Dashboard pending_db))) = [1]"
    "map pb_snapshot (products_backup (backup (snd (handle (env_at 7) Dashboard pending_db)))) =
     map pa_snapshot (products_audit (main pending_db))"
    "order_items_backup_ids (main (snd (handle (env_at 7) Dashboard pending_db))) = [1]"
    "map oib_snapshot (order_items_backup (backup (snd (handle (env_at 7) Dashboard pending_db)))) =
     map oia_snapshot (order_items_audit (main pending_db))"
    unfolding pending_db_dashboard
    by (simp_all add: replicated_db_def half_replicated_db_def pending_db_def pending_main_def
        pa_snapshot_def pb_snapshot_def oia_snapshot_def oib_snapshot_def)
  show ?thesis
    using a a2 d r p by simp
qed

section \<open>Invocations at the same time\<close>

lemma view_in_seen: "(m # seen) ! min k (length seen) \<in> set (m # seen)"
  by (rule nth_mem) simp

lemma replicate_product_reading_unfold:
  "replicate_product_to_backup_reading f now view s =
     (if f = ReadFails then (Some OperationalError, s)
      else case replicate_product_rows f now 0 (products_pending view) (main s) (backup s) of
                Inl e \<Rightarrow> (Some e, s)
              | Inr (m', b') \<Rightarrow>
                  if f = MainCommitFails then (Some OperationalError, s)
                  else if f = BackupCommitFails then (Some Interrupted, s\<lparr>main := m'\<rparr>)
                  else (None, \<lparr>main = m', backup = b'\<rparr>))"
  by (simp add: replicate_product_to_backup_reading_def products_pending_def Let_def)

lemma replicate_product_reading_fresh:
  assumes "products_pending view = products_pending (main s)"
  shows "replicate_product_to_backup_reading f now view s = replicate_product_to_backup f now s"
  by (simp add: replicate_product_reading_unfold replicate_product_unfold assms)

lemma replicate_product_rows_stale:
  assumes "pa_audit_id r \<in> set (products_backup_ids m)"
  shows "\<exists>e. replicate_product_rows f now i (r # rows) m b = Inl e"
  using assms by (simp add: insert_products_backup_ids_def Let_def)

lemma replicate_product_reading_stale_loop:
  assumes "\<forall>r \<in> set (products_pending view). pa_audit_id r \<in> set (products_backup_ids (main s))"
    and "products_pending view \<noteq> []"
  shows "\<exists>e. replicate_product_rows f now 0 (products_pending view) (main s) (backup s) = Inl e"
proof -
  from assms(2) obtain r rows where c: "products_pending view = r # rows"
    by (cases "products_pending view") auto
  then have "pa_audit_id r \<in> set (products_backup_ids (main s))" using assms(1) by simp
  from replicate_product_rows_stale[OF this] show ?thesis unfolding c .
qed

lemma replicate_product_reading_stale:
  assumes "\<forall>r \<in> set (products_pending view). pa_audit_id r \<in> set (products_backup_ids (main s))"
  shows "snd (replicate_product_to_backup_reading f now view s) = s"
    and "fst (replicate_product_to_backup_reading f now view s) = None \<Longrightarrow> products_pending view = []"
proof -
  show "snd (replicate_product_to_backup_reading f now view s) = s"
  proof (cases "products_pending view = []")
    case True
    then show ?thesis by (simp add: replicate_product_reading_unfold)
  next
    case False
    from replicate_product_reading_stale_loop[OF assms False] obtain e where
      l: "replicate_product_rows f now 0 (products_pending view) (main s) (backup s) = Inl e" by blast
    show ?thesis unfolding replicate_product_reading_unfold l by simp
  qed
  show "products_pending view = []"
    if n: "fst (replicate_product_to_backup_reading f now view s) = None"
  proof (rule ccontr)
    assume False: "products_pending view \<noteq> []"
    from replicate_product_reading_stale_loop[OF assms False] obtain e where
      l: "replicate_product_rows f now 0 (products_pending view) (main s) (backup s) = Inl e" by blast
    show False using n unfolding replicate_product_reading_unfold l by (simp split: if_splits)
  qed
qed

lemma replicate_product_invocations_Cons:
  "replicate_product_invocations ((f, now, k) # invs) seen s =
     (fst (replicate_product_to_backup_reading f now ((main s # seen) ! min k (length seen)) s) #
        fst (replicate_product_invocations invs (main s # seen)
               (snd (replicate_product_to_backup_reading f now ((main s # seen) ! min k (length seen)) s))),
      snd (replicate_product_invocations invs (main s # seen)
               (snd (replicate_product_to_backup_reading f now ((main s # seen) ! min k (length seen)) s))))"
  by (simp add: Let_def split: prod.splits)

text \<open>
  Once the ledger holds the ids of all rows that any visible state of the main database
  shows as pending, no invocation changes the stores any more, and the only ones that
  return normally are those that fetched no row.
\<close>

lemma replicate_product_invocations_done:
  assumes "\<forall>v \<in> set (main s # seen). \<forall>r \<in> set (products_pending v).
             pa_audit_id r \<in> set (products_backup_ids (main s))"
  shows "snd (replicate_product_invocations invs seen s) = s"
  using assms
proof (induction invs arbitrary: seen)
  case Nil
  then show ?case by simp
next
  case (Cons inv invs)
  obtain f now k where inv: "inv = (f, now, k)" by (cases inv)
  let ?view = "(main s # seen) ! min k (length seen)"
  have "?view \<in> set (main s # seen)" by (rule view_in_seen)
  then have "\<forall>r \<in> set (products_pending ?view). pa_audit_id r \<in> set (products_backup_ids (main s))"
    using Cons.prems by blast
  then have same: "snd (replicate_product_to_backup_reading f now ?view s) = s"
    by (rule replicate_product_reading_stale(1))
  have "\<forall>v \<in> set (main s # main s # seen). \<forall>r \<in> set (products_pending v).
             pa_audit_id r \<in> set (products_backup_ids (main s))"
    using Cons.prems by simp
  from Cons.IH[OF this] show ?case
    unfolding inv replicate_product_invocations_Cons same by simp
qed

lemma replicate_product_ledger_done:
  assumes m: "main s' = (main s)\<lparr>products_backup_ids :=
          products_backup_ids (main s) @ map pa_audit_id (products_pending (main s))\<rparr>"
    and fresh: "\<forall>v \<in> set seen. products_pending v = products_pending (main s)"
  shows "\<forall>v \<in> set (main s' # main s # seen). \<forall>r \<in> set (products_pending v).
             pa_audit_id r \<in> set (products_backup_ids (main s'))"
proof (intro ballI)
  fix v r assume v: "v \<in> set (main s' # main s # seen)" and r: "r \<in> set (products_pending v)"
  show "pa_audit_id r \<in> set (products_backup_ids (main s'))"
  proof (cases "v = main s'")
    case True
    then have "products_pending v = []" unfolding m by (simp add: products_pending_after)
    then show ?thesis using r by simp
  next
    case False
    then have "products_pending v = products_pending (main s)" using v fresh by auto
    then show ?thesis using r unfolding m by simp
  qed
qed

lemma replicate_product_exactly:
  assumes "replicate_product_to_backup f now s = (None, s')"
  shows "products_replicated_exactly s s'"
proof -
  from replicate_product_success[OF assms] obtain new seq' where
    m: "main s' = (main s)\<lparr>products_backup_ids :=
            products_backup_ids (main s) @ map pa_audit_id (products_pending (main s))\<rparr>"
    and b: "backup s' = (backup s)\<lparr>products_backup := products_backup (backup s) @ new,
                                           products_backup_seq := seq'\<rparr>"
    and n: "map pb_snapshot new = map pa_snapshot (products_pending (main s))"
    by blast
  have "products_pending (main s') = []" unfolding m by (rule products_pending_after)
  then show ?thesis
    unfolding products_replicated_exactly_def using n by (simp add: m b)
qed

text \<open>
  As long as every visible state of the main database shows the same pending rows as
  the current one, the invocations together do what one of them does alone, or nothing.
\<close>

lemma replicate_product_invocations_serial:
  assumes "\<forall>v \<in> set seen. products_pending v = products_pending (main s)"
  shows "snd (replicate_product_invocations invs seen s) = s \<or>
         (\<exists>i < length invs. snd (replicate_product_invocations invs seen s) =
            snd (replicate_product_to_backup (fst (invs ! i)) (fst (snd (invs ! i))) s))"
  using assms
proof (induction invs arbitrary: seen)
  case Nil
  then show ?case by simp
next
  case (Cons inv invs)
  obtain f now k where inv: "inv = (f, now, k)" by (cases inv)
  let ?view = "(main s # seen) ! min k (length seen)"
  let ?s' = "snd (replicate_product_to_backup f now s)"
  have "?view \<in> set (main s # seen)" by (rule view_in_seen)
  then have "products_pending ?view = products_pending (main s)" using Cons.prems by auto
  then have rd: "replicate_product_to_backup_reading f now ?view s = replicate_product_to_backup f now s"
    by (rule replicate_product_reading_fresh)
  have run: "snd (replicate_product_invocations (inv # invs) seen s) =
      snd (replicate_product_invocations invs (main s # seen) ?s')"
    unfolding inv replicate_product_invocations_Cons rd by simp
  have "?s' = s \<or> main ?s' = (main s)\<lparr>products_backup_ids :=
          products_backup_ids (main s) @ map pa_audit_id (products_pending (main s))\<rparr>"
    by (cases f now s rule: replicate_product_cases) simp_all
  then show ?case
  proof
    assume same: "?s' = s"
    have "\<forall>v \<in> set (main s # seen). products_pending v = products_pending (main s)"
      using Cons.prems by simp
    from Cons.IH[OF this] show ?thesis
    proof
      assume "snd (replicate_product_invocations invs (main s # seen) s) = s"
      then show ?thesis unfolding run same by simp
    next
      assume "\<exists>i<length invs. snd (replicate_product_invocations invs (main s # seen) s) =
            snd (replicate_product_to_backup (fst (invs ! i)) (fst (snd (invs ! i))) s)"
      then obtain i where i: "i < length invs"
        "snd (replicate_product_invocations invs (main s # seen) s) =
            snd (replicate_product_to_backup (fst (invs ! i)) (fst (snd (invs ! i))) s)" by blast
      have "Suc i < length (inv # invs)" using i(1) by simp
      moreover have "snd (replicate_product_invocations (inv # invs) seen s) =
          snd (replicate_product_to_backup (fst ((inv # invs) ! Suc i)) (fst (snd ((inv # invs) ! Suc i))) s)"
        unfolding run same using i(2) by simp
      ultimately show ?thesis by blast
    qed
  next
    assume m: "main ?s' = (main s)\<lparr>products_backup_ids :=
          products_backup_ids (main s) @ map pa_audit_id (products_pending (main s))\<rparr>"
    have "snd (replicate_product_invocations invs (main s # seen) ?s') = ?s'"
      by (rule replicate_product_invocations_done) (rule replicate_product_ledger_done[OF m Cons.prems])
    then have "snd (replicate_product_invocations (inv # invs) seen s) =
        snd (replicate_product_to_backup (fst ((inv # invs) ! 0)) (fst (snd ((inv # invs) ! 0))) s)"
      unfolding run by (simp add: inv)
    moreover have "0 < length (inv # invs)" by simp
    ultimately show ?thesis by blast
  qed
qed

text \<open>
  If no invocation is stopped between its two commits and one of them returns normally,
  the stores hold at the end exactly what one complete pass adds.
\<close>

lemma replicate_product_invocations_exactly:
  assumes "\<forall>v \<in> set seen. products_pending v = products_pending (main s)"
    and "list_all (\<lambda>i. commits_together (fst i)) invs"
    and "None \<in> set (fst (replicate_product_invocations invs seen s))"
  shows "products_replicated_exactly s (snd (replicate_product_invocations invs seen s))"
  using assms
proof (induction invs arbitrary: seen)
  case Nil
  then show ?case by simp
next
  case (Cons inv invs)
  obtain f now k where inv: "inv = (f, now, k)" by (cases inv)
  let ?view = "(main s # seen) ! min k (length seen)"
  let ?s' = "snd (replicate_product_to_backup f now s)"
  have f: "commits_together f" and rest: "list_all (\<lambda>i. commits_together (fst i)) invs"
    using Cons.prems(2) by (simp_all add: inv)
  have "?view \<in> set (main s # seen)" by (rule view_in_seen)
  then have "products_pending ?view = products_pending (main s)" using Cons.prems(1) by auto
  then have rd: "replicate_product_to_backup_reading f now ?view s = replicate_product_to_backup f now s"
    by (rule replicate_product_reading_fresh)
  have run: "replicate_product_invocations (inv # invs) seen s =
      (fst (replicate_product_to_backup f now s) #
         fst (replicate_product_invocations invs (main s # seen) ?s'),
       snd (replicate_product_invocations invs (main s # seen) ?s'))"
    unfolding inv replicate_product_invocations_Cons rd by simp
  show ?case
  proof (cases "fst (replicate_product_to_backup f now s)")
    case None
    then have p: "replicate_product_to_backup f now s = (None, ?s')"
      by (metis prod.collapse)
    have ex: "products_replicated_exactly s ?s'" by (rule replicate_product_exactly[OF p])
    have m: "main ?s' = (main s)\<lparr>products_backup_ids :=
          products_backup_ids (main s) @ map pa_audit_id (products_pending (main s))\<rparr>"
      by (rule replicate_product_success(1)[OF p])
    have "snd (replicate_product_invocations invs (main s # seen) ?s') = ?s'"
      by (rule replicate_product_invocations_done) (rule replicate_product_ledger_done[OF m Cons.prems(1)])
    then show ?thesis unfolding run using ex by simp
  next
    case (Some e)
    then have p: "replicate_product_to_backup f now s = (Some e, ?s')"
      by (metis prod.collapse)
    from replicate_product_failure[OF p] f have same: "?s' = s"
      by (auto simp: commits_together_def)
    have n: "None \<in> set (fst (replicate_product_invocations invs (main s # seen) s))"
      using Cons.prems(3) unfolding run same Some by simp
    have "\<forall>v \<in> set (main s # seen). products_pending v = products_pending (main s)"
      using Cons.prems(1) by simp
    from Cons.IH[OF this rest n] show ?thesis unfolding run same by simp
  qed
qed

text \<open>Without faults the invocation that gets the write lock first returns normally.\<close>

lemma replicate_product_invocations_first:
  assumes "distinct (map pa_audit_id (products_audit (main s)))"
    and "invs \<noteq> []" and "fst (hd invs) = NoFault"
  shows "hd (fst (replicate_product_invocations invs [] s)) = None"
proof -
  from assms(2,3) obtain now k rest where invs: "invs = (NoFault, now, k) # rest"
    by (cases invs) auto
  have rd: "replicate_product_to_backup_reading NoFault now (main s) s =
      replicate_product_to_backup NoFault now s"
    by (rule replicate_product_reading_fresh) simp
  show ?thesis
    unfolding invs replicate_product_invocations_Cons
    using replicate_product_NoFault[OF assms(1), of now] by (simp add: rd)
qed

lemma replicate_product_invocations_length:
  "length (fst (replicate_product_invocations invs seen s)) = length invs"
proof (induction invs arbitrary: seen s)
  case Nil
  then show ?case by simp
next
  case (Cons inv invs)
  obtain f now k where inv: "inv = (f, now, k)" by (cases inv)
  show ?case unfolding inv replicate_product_invocations_Cons using Cons.IH by simp
qed

lemma replicate_product_at_most_once:
  "\<exists>new. products_backup (backup (snd (replicate_product_to_backup f now s))) =
            products_backup (backup s) @ new \<and>
          (new = [] \<or> map pb_snapshot new = map pa_snapshot (products_pending (main s)))"
proof (cases f now s rule: replicate_product_cases)
  case unchanged
  then show ?thesis by simp
next
  case (committed new)
  then show ?thesis by blast
next
  case half
  then show ?thesis by simp
qed

lemma replicate_product_invocations_after_first:
  assumes "invs \<noteq> []" and "hd (fst (replicate_product_invocations invs [] s)) = None"
  shows "products_replicated_exactly s (snd (replicate_product_invocations invs [] s))"
proof -
  from assms(1) obtain f now k rest where invs: "invs = (f, now, k) # rest"
    by (cases invs) auto
  let ?s' = "snd (replicate_product_to_backup f now s)"
  have rd: "replicate_product_to_backup_reading f now (main s) s = replicate_product_to_backup f now s"
    by (rule replicate_product_reading_fresh) simp
  have run: "replicate_product_invocations invs [] s =
      (fst (replicate_product_to_backup f now s) #
         fst (replicate_product_invocations rest [main s] ?s'),
       snd (replicate_product_invocations rest [main s] ?s'))"
    unfolding invs replicate_product_invocations_Cons by (simp add: rd)
  have "fst (replicate_product_to_backup f now s) = None"
    using assms(2) unfolding run by simp
  then have p: "replicate_product_to_backup f now s = (None, ?s')"
    by (metis prod.collapse)
  have ex: "products_replicated_exactly s ?s'" by (rule replicate_product_exactly[OF p])
  have m: "main ?s' = (main s)\<lparr>products_backup_ids :=
        products_backup_ids (main s) @ map pa_audit_id (products_pending (main s))\<rparr>"
    by (rule replicate_product_success(1)[OF p])
  have "\<forall>v \<in> set []. products_pending v = products_pending (main s)" by simp
  from replicate_product_ledger_done[OF m this]
  have "snd (replicate_product_invocations rest [main s] ?s') = ?s'"
    by (rule replicate_product_invocations_done)
  then show ?thesis unfolding run using ex by simp
qed

lemma products_replicated_exactly_length:
  assumes "products_replicated_exactly s s'"
  shows "length (products_backup (backup s')) =
         length (products_backup (backup s)) + length (products_pending (main s))"
proof -
  let ?n = "length (products_backup (backup s))"
  from assms have t: "take ?n (products_backup (backup s')) = products_backup (backup s)"
    and d: "map pb_snapshot (drop ?n (products_backup (backup s'))) =
            map pa_snapshot (products_pending (main s))"
    by (simp_all add: products_replicated_exactly_def)
  from t have "length (take ?n (products_backup (backup s'))) = ?n" by simp
  then have le: "?n \<le> length (products_backup (backup s'))" by simp
  from d have "length (map pb_snapshot (drop ?n (products_backup (backup s')))) =
      length (map pa_snapshot (products_pending (main s)))" by simp
  then have "length (products_backup (backup s')) - ?n = length (products_pending (main s))"
    by simp
  then show ?thesis using le by simp
qed

lemma replicate_product_invocations_at_most_once:
  "\<exists>new. products_backup (backup (snd (replicate_product_invocations invs [] s))) =
            products_backup (backup s) @ new \<and>
          (new = [] \<or> map pb_snapshot new = map pa_snapshot (products_pending (main s)))"
proof -
  have "\<forall>v \<in> set []. products_pending v = products_pending (main s)" by simp
  from replicate_product_invocations_serial[OF this, of invs]
  show ?thesis
  proof
    assume "snd (replicate_product_invocations invs [] s) = s"
    then show ?thesis by simp
  next
    assume "\<exists>i<length invs. snd (replicate_product_invocations invs [] s) =
            snd (replicate_product_to_backup (fst (invs ! i)) (fst (snd (invs ! i))) s)"
    then obtain i where "snd (replicate_product_invocations invs [] s) =
            snd (replicate_product_to_backup (fst (invs ! i)) (fst (snd (invs ! i))) s)" by blast
    then show ?thesis
      using replicate_product_at_most_once[of "fst (invs ! i)" "fst (snd (invs ! i))" s] by simp
  qed
qed


lemma replicate_order_item_reading_unfold:
  "replicate_order_item_to_backup_reading f now view s =
     (if f = ReadFails then (Some OperationalError, s)
      else case replicate_order_item_rows f now 0 (order_items_pending view) (main s) (backup s) of
                Inl e \<Rightarrow> (Some e, s)
              | Inr (m', b') \<Rightarrow>
                  if f = MainCommitFails then (Some OperationalError, s)
                  else if f = BackupCommitFails then (Some Interrupted, s\<lparr>main := m'\<rparr>)
                  else (None, \<lparr>main = m', backup = b'\<rparr>))"
  by (simp add: replicate_order_item_to_backup_reading_def order_items_pending_def Let_def)

lemma replicate_order_item_reading_fresh:
  assumes "order_items_pending view = order_items_pending (main s)"
  shows "replicate_order_item_to_backup_reading f now view s = replicate_order_item_to_backup f now s"
  by (simp add: replicate_order_item_reading_unfold replicate_order_item_unfold assms)

lemma replicate_order_item_rows_stale:
  assumes "oia_audit_id r \<in> set (order_items_backup_ids m)"
  shows "\<exists>e. replicate_order_item_rows f now i (r # rows) m b = Inl e"
  using assms by (simp add: insert_order_items_backup_ids_def Let_def)

lemma replicate_order_item_reading_stale_loop:
  assumes "\<forall>r \<in> set (order_items_pending view). oia_audit_id r \<in> set (order_items_backup_ids (main s))"
    and "order_items_pending view \<noteq> []"
  shows "\<exists>e. replicate_order_item_rows f now 0 (order_items_pending view) (main s) (backup s) = Inl e"
proof -
  from assms(2) obtain r rows where c: "order_items_pending view = r # rows"
    by (cases "order_items_pending view") auto
  then have "oia_audit_id r \<in> set (order_items_backup_ids (main s))" using assms(1) by simp
  from replicate_order_item_rows_stale[OF this] show ?thesis unfolding c .
qed

lemma replicate_order_item_reading_stale:
  assumes "\<forall>r \<in> set (order_items_pending view). oia_audit_id r \<in> set (order_items_backup_ids (main s))"
  shows "snd (replicate_order_item_to_backup_reading f now view s) = s"
    and "fst (replicate_order_item_to_backup_reading f now view s) = None \<Longrightarrow> order_items_pending view = []"
proof -
  show "snd (replicate_order_item_to_backup_reading f now view s) = s"
  proof (cases "order_items_pending view = []")
    case True
    then show ?thesis by (simp add: replicate_order_item_reading_unfold)
  next
    case False
    from replicate_order_item_reading_stale_loop[OF assms False] obtain e where
      l: "replicate_order_item_rows f now 0 (order_items_pending view) (main s) (backup s) = Inl e" by blast
    show ?thesis unfolding replicate_order_item_reading_unfold l by simp
  qed
  show "order_items_pending view = []"
    if n: "fst (replicate_order_item_to_backup_reading f now view s) = None"
  proof (rule ccontr)
    assume False: "order_items_pending view \<noteq> []"
    from replicate_order_item_reading_stale_loop[OF assms False] obtain e where
      l: "replicate_order_item_rows f now 0 (order_items_pending view) (main s) (backup s) = Inl e" by blast
    show False using n unfolding replicate_order_item_reading_unfold l by (simp split: if_splits)
  qed
qed

lemma replicate_order_item_invocations_Cons:
  "replicate_order_item_invocations ((f, now, k) # invs) seen s =
     (fst (replicate_order_item_to_backup_reading f now ((main s # seen) ! min k (length seen)) s) #
        fst (replicate_order_item_invocations invs (main s # seen)
               (snd (replicate_order_item_to_backup_reading f now ((main s # seen) ! min k (length seen)) s))),
      snd (replicate_order_item_invocations invs (main s # seen)
               (snd (replicate_order_item_to_backup_reading f now ((main s # seen) ! min k (length seen)) s))))"
  by (simp add: Let_def split: prod.splits)

lemma replicate_order_item_invocations_done:
  assumes "\<forall>v \<in> set (main s # seen). \<forall>r \<in> set (order_items_pending v).
             oia_audit_id r \<in> set (order_items_backup_ids (main s))"
  shows "snd (replicate_order_item_invocations invs seen s) = s"
  using assms
proof (induction invs arbitrary: seen)
  case Nil
  then show ?case by simp
next
  case (Cons inv invs)
  obtain f now k where inv: "inv = (f, now, k)" by (cases inv)
  let ?view = "(main s # seen) ! min k (length seen)"
  have "?view \<in> set (main s # seen)" by (rule view_in_seen)
  then have "\<forall>r \<in> set (order_items_pending ?view). oia_audit_id r \<in> set (order_items_backup_ids (main s))"
    using Cons.prems by blast
  then have same: "snd (replicate_order_item_to_backup_reading f now ?view s) = s"
    by (rule replicate_order_item_reading_stale(1))
  have "\<forall>v \<in> set (main s # main s # seen). \<forall>r \<in> set (order_items_pending v).
             oia_audit_id r \<in> set (order_items_backup_ids (main s))"
    using Cons.prems by simp
  from Cons.IH[OF this] show ?case
    unfolding inv replicate_order_item_invocations_Cons same by simp
qed

lemma replicate_order_item_ledger_done:
  assumes m: "main s' = (main s)\<lparr>order_items_backup_ids :=
          order_items_backup_ids (main s) @ map oia_audit_id (order_items_pending (main s))\<rparr>"
    and fresh: "\<forall>v \<in> set seen. order_items_pending v = order_items_pending (main s)"
  shows "\<forall>v \<in> set (main s' # main s # seen). \<forall>r \<in> set (order_items_pending v).
             oia_audit_id r \<in> set (order_items_backup_ids (main s'))"
proof (intro ballI)
  fix v r assume v: "v \<in> set (main s' # main s # seen)" and r: "r \<in> set (order_items_pending v)"
  show "oia_audit_id r \<in> set (order_items_backup_ids (main s'))"
  proof (cases "v = main s'")
    case True
    then have "order_items_pending v = []" unfolding m by (simp add: order_items_pending_after)
    then show ?thesis using r by simp
  next
    case False
    then have "order_items_pending v = order_items_pending (main s)" using v fresh by auto
    then show ?thesis using r unfolding m by simp
  qed
qed

lemma replicate_order_item_exactly:
  assumes "replicate_order_item_to_backup f now s = (None, s')"
  shows "order_items_replicated_exactly s s'"
proof -
  from replicate_order_item_success[OF assms] obtain new seq' where
    m: "main s' = (main s)\<lparr>order_items_backup_ids :=
            order_items_backup_ids (main s) @ map oia_audit_id (order_items_pending (main s))\<rparr>"
    and b: "backup s' = (backup s)\<lparr>order_items_backup := order_items_backup (backup s) @ new,
                                           order_items_backup_seq := seq'\<rparr>"
    and n: "map oib_snapshot new = map oia_snapshot (order_items_pending (main s))"
    by blast
  have "order_items_pending (main s') = []" unfolding m by (rule order_items_pending_after)
  then show ?thesis
    unfolding order_items_replicated_exactly_def using n by (simp add: m b)
qed

lemma replicate_order_item_invocations_serial:
  assumes "\<forall>v \<in> set seen. order_items_pending v = order_items_pending (main s)"
  shows "snd (replicate_order_item_invocations invs seen s) = s \<or>
         (\<exists>i < length invs. snd (replicate_order_item_invocations invs seen s) =
            snd (replicate_order_item_to_backup (fst (invs ! i)) (fst (snd (invs ! i))) s))"
  using assms
proof (induction invs arbitrary: seen)
  case Nil
  then show ?case by simp
next
  case (Cons inv invs)
  obtain f now k where inv: "inv = (f, now, k)" by (cases inv)
  let ?view = "(main s # seen) ! min k (length seen)"
  let ?s' = "snd (replicate_order_item_to_backup f now s)"
  have "?view \<in> set (main s # seen)" by (rule view_in_seen)
  then have "order_items_pending ?view = order_items_pending (main s)" using Cons.prems by auto
  then have rd: "replicate_order_item_to_backup_reading f now ?view s = replicate_order_item_to_backup f now s"
    by (rule replicate_order_item_reading_fresh)
  have run: "snd (replicate_order_item_invocations (inv # invs) seen s) =
      snd (replicate_order_item_invocations invs (main s # seen) ?s')"
    unfolding inv replicate_order_item_invocations_Cons rd by simp
  have "?s' = s \<or> main ?s' = (main s)\<lparr>order_items_backup_ids :=
          order_items_backup_ids (main s) @ map oia_audit_id (order_items_pending (main s))\<rparr>"
    by (cases f now s rule: replicate_order_item_cases) simp_all
  then show ?case
  proof
    assume same: "?s' = s"
    have "\<forall>v \<in> set (main s # seen). order_items_pending v = order_items_pending (main s)"
      using Cons.prems by simp
    from Cons.IH[OF this] show ?thesis
    proof
      assume "snd (replicate_order_item_invocations invs (main s # seen) s) = s"
      then show ?thesis unfolding run same by simp
    next
      assume "\<exists>i<length invs. snd (replicate_order_item_invocations invs (main s # seen) s) =
            snd (replicate_order_item_to_backup (fst (invs ! i)) (fst (snd (invs ! i))) s)"
      then obtain i where i: "i < length invs"
        "snd (replicate_order_item_invocations invs (main s # seen) s) =
            snd (replicate_order_item_to_backup (fst (invs ! i)) (fst (snd (invs ! i))) s)" by blast
      have "Suc i < length (inv # invs)" using i(1) by simp
      moreover have "snd (replicate_order_item_invocations (inv # invs) seen s) =
          snd (replicate_order_item_to_backup (fst ((inv # invs) ! Suc i)) (fst (snd ((inv # invs) ! Suc i))) s)"
        unfolding run same using i(2) by simp
      ultimately show ?thesis by blast
    qed
  next
    assume m: "main ?s' = (main s)\<lparr>order_items_backup_ids :=
          order_items_backup_ids (main s) @ map oia_audit_id (order_items_pending (main s))\<rparr>"
    have "snd (replicate_order_item_invocations invs (main s # seen) ?s') = ?s'"
      by (rule replicate_order_item_invocations_done) (rule replicate_order_item_ledger_done[OF m Cons.prems])
    then have "snd (replicate_order_item_invocations (inv # invs) seen s) =
        snd (replicate_order_item_to_backup (fst ((inv # invs) ! 0)) (fst (snd ((inv # invs) ! 0))) s)"
      unfolding run by (simp add: inv)
    moreover have "0 < length (inv # invs)" by simp
    ultimately show ?thesis by blast
  qed
qed

lemma replicate_order_item_invocations_exactly:
  assumes "\<forall>v \<in> set seen. order_items_pending v = order_items_pending (main s)"
    and "list_all (\<lambda>i. commits_together (fst i)) invs"
    and "None \<in> set (fst (replicate_order_item_invocations invs seen s))"
  shows "order_items_replicated_exactly s (snd (replicate_order_item_invocations invs seen s))"
  using assms
proof (induction invs arbitrary: seen)
  case Nil
  then show ?case by simp
next
  case (Cons inv invs)
  obtain f now k where inv: "inv = (f, now, k)" by (cases inv)
  let ?view = "(main s # seen) ! min k (length seen)"
  let ?s' = "snd (replicate_order_item_to_backup f now s)"
  have f: "commits_together f" and rest: "list_all (\<lambda>i. commits_together (fst i)) invs"
    using Cons.prems(2) by (simp_all add: inv)
  have "?view \<in> set (main s # seen)" by (rule view_in_seen)
  then have "order_items_pending ?view = order_items_pending (main s)" using Cons.prems(1) by auto
  then have rd: "replicate_order_item_to_backup_reading f now ?view s = replicate_order_item_to_backup f now s"
    by (rule replicate_order_item_reading_fresh)
  have run: "replicate_order_item_invocations (inv # invs) seen s =
      (fst (replicate_order_item_to_backup f now s) #
         fst (replicate_order_item_invocations invs (main s # seen) ?s'),
       snd (replicate_order_item_invocations invs (main s # seen) ?s'))"
    unfolding inv replicate_order_item_invocations_Cons rd by simp
  show ?case
  proof (cases "fst (replicate_order_item_to_backup f now s)")
    case None
    then have p: "replicate_order_item_to_backup f now s = (None, ?s')"
      by (metis prod.collapse)
    have ex: "order_items_replicated_exactly s ?s'" by (rule replicate_order_item_exactly[OF p])
    have m: "main ?s' = (main s)\<lparr>order_items_backup_ids :=
          order_items_backup_ids (main s) @ map oia_audit_id (order_items_pending (main s))\<rparr>"
      by (rule replicate_order_item_success(1)[OF p])
    have "snd (replicate_order_item_invocations invs (main s # seen) ?s') = ?s'"
      by (rule replicate_order_item_invocations_done) (rule replicate_order_item_ledger_done[OF m Cons.prems(1)])
    then show ?thesis unfolding run using ex by simp
  next
    case (Some e)
    then have p: "replicate_order_item_to_backup f now s = (Some e, ?s')"
      by (metis prod.collapse)
    from replicate_order_item_failure[OF p] f have same: "?s' = s"
      by (auto simp: commits_together_def)
    have n: "None \<in> set (fst (replicate_order_item_invocations invs (main s # seen) s))"
      using Cons.prems(3) unfolding run same Some by simp
    have "\<forall>v \<in> set (main s # seen). order_items_pending v = order_items_pending (main s)"
      using Cons.prems(1) by simp
    from Cons.IH[OF this rest n] show ?thesis unfolding run same by simp
  qed
qed

lemma replicate_order_item_invocations_first:
  assumes "distinct (map oia_audit_id (order_items_audit (main s)))"
    and "invs \<noteq> []" and "fst (hd invs) = NoFault"
  shows "hd (fst (replicate_order_item_invocations invs [] s)) = None"
proof -
  from assms(2,3) obtain now k rest where invs: "invs = (NoFault, now, k) # rest"
    by (cases invs) auto
  have rd: "replicate_order_item_to_backup_reading NoFault now (main s) s =
      replicate_order_item_to_backup NoFault now s"
    by (rule replicate_order_item_reading_fresh) simp
  show ?thesis
    unfolding invs replicate_order_item_invocations_Cons
    using replicate_order_item_NoFault[OF assms(1), of now] by (simp add: rd)
qed

lemma replicate_order_item_invocations_length:
  "length (fst (replicate_order_item_invocations invs seen s)) = length invs"
proof (induction invs arbitrary: seen s)
  case Nil
  then show ?case by simp
next
  case (Cons inv invs)
  obtain f now k where inv: "inv = (f, now, k)" by (cases inv)
  show ?case unfolding inv replicate_order_item_invocations_Cons using Cons.IH by simp
qed

lemma replicate_order_item_at_most_once:
  "\<exists>new. order_items_backup (backup (snd (replicate_order_item_to_backup f now s))) =
            order_items_backup (backup s) @ new \<and>
          (new = [] \<or> map oib_snapshot new = map oia_snapshot (order_items_pending (main s)))"
proof (cases f now s rule: replicate_order_item_cases)
  case unchanged
  then show ?thesis by simp
next
  case (committed new)
  then show ?thesis by blast
next
  case half
  then show ?thesis by simp
qed

lemma replicate_order_item_invocations_after_first:
  assumes "invs \<noteq> []" and "hd (fst (replicate_order_item_invocations invs [] s)) = None"
  shows "order_items_replicated_exactly s (snd (replicate_order_item_invocations invs [] s))"
proof -
  from assms(1) obtain f now k rest where invs: "invs = (f, now, k) # rest"
    by (cases invs) auto
  let ?s' = "snd (replicate_order_item_to_backup f now s)"
  have rd: "replicate_order_item_to_backup_reading f now (main s) s = replicate_order_item_to_backup f now s"
    by (rule replicate_order_item_reading_fresh) simp
  have run: "replicate_order_item_invocations invs [] s =
      (fst (replicate_order_item_to_backup f now s) #
         fst (replicate_order_item_invocations rest [main s] ?s'),
       snd (replicate_order_item_invocations rest [main s] ?s'))"
    unfolding invs replicate_order_item_invocations_Cons by (simp add: rd)
  have "fst (replicate_order_item_to_backup f now s) = None"
    using assms(2) unfolding run by simp
  then have p: "replicate_order_item_to_backup f now s = (None, ?s')"
    by (metis prod.collapse)
  have ex: "order_items_replicated_exactly s ?s'" by (rule replicate_order_item_exactly[OF p])
  have m: "main ?s' = (main s)\<lparr>order_items_backup_ids :=
        order_items_backup_ids (main s) @ map oia_audit_id (order_items_pending (main s))\<rparr>"
    by (rule replicate_order_item_success(1)[OF p])
  have "\<forall>v \<in> set []. order_items_pending v = order_items_pending (main s)" by simp
  from replicate_order_item_ledger_done[OF m this]
  have "snd (replicate_order_item_invocations rest [main s] ?s') = ?s'"
    by (rule replicate_order_item_invocations_done)
  then show ?thesis unfolding run using ex by simp
qed

lemma order_items_replicated_exactly_length:
  assumes "order_items_replicated_exactly s s'"
  shows "length (order_items_backup (backup s')) =
         length (order_items_backup (backup s)) + length (order_items_pending (main s))"
proof -
  let ?n = "length (order_items_backup (backup s))"
  from assms have t: "take ?n (order_items_backup (backup s')) = order_items_backup (backup s)"
    and d: "map oib_snapshot (drop ?n (order_items_backup (backup s'))) =
            map oia_snapshot (order_items_pending (main s))"
    by (simp_all add: order_items_replicated_exactly_def)
  from t have "length (take ?n (order_items_backup (backup s'))) = ?n" by simp
  then have le: "?n \<le> length (order_items_backup (backup s'))" by simp
  from d have "length (map oib_snapshot (drop ?n (order_items_backup (backup s')))) =
      length (map oia_snapshot (order_items_pending (main s)))" by simp
  then have "length (order_items_backup (backup s')) - ?n = length (order_items_pending (main s))"
    by simp
  then show ?thesis using le by simp
qed

lemma replicate_order_item_invocations_at_most_once:
  "\<exists>new. order_items_backup (backup (snd (replicate_order_item_invocations invs [] s))) =
            order_items_backup (backup s) @ new \<and>
          (new = [] \<or> map oib_snapshot new = map oia_snapshot (order_items_pending (main s)))"
proof -
  have "\<forall>v \<in> set []. order_items_pending v = order_items_pending (main s)" by simp
  from replicate_order_item_invocations_serial[OF this, of invs]
  show ?thesis
  proof
    assume "snd (replicate_order_item_invocations invs [] s) = s"
    then show ?thesis by simp
  next
    assume "\<exists>i<length invs. snd (replicate_order_item_invocations invs [] s) =
            snd (replicate_order_item_to_backup (fst (invs ! i)) (fst (snd (invs ! i))) s)"
    then obtain i where "snd (replicate_order_item_invocations invs [] s) =
            snd (replicate_order_item_to_backup (fst (invs ! i)) (fst (snd (invs ! i))) s)" by blast
    then show ?thesis
      using replicate_order_item_at_most_once[of "fst (invs ! i)" "fst (snd (invs ! i))" s] by simp
  qed
qed

end
